theory Spec2Isabelle
  imports Main "HOL-Library.AList"
begin

section \<open>Values, strings and the clock\<close>

text \<open>
  Python values that the fields of a backlog item hold at run time. The dataclass
  annotates its fields (\<open>str\<close>, \<open>Optional[str]\<close>, \<open>Optional[int]\<close>), but nothing
  enforces the annotations: \<open>update_item\<close> stores whatever value it is handed. Every
  field therefore holds a \<open>pyval\<close>. Booleans, floats and containers never occur in
  the operations modelled here.
\<close>

datatype pyval = PNone | PStr string | PInt int

text \<open>Truthiness, as \<open>if x:\<close> and \<open>not x\<close> test it.\<close>

fun truthy :: "pyval \<Rightarrow> bool" where
  "truthy PNone = False"
| "truthy (PStr s) = (s \<noteq> [])"
| "truthy (PInt n) = (n \<noteq> 0)"

text \<open>
  Strings are ASCII text. \<open>upper\<close> and \<open>lower\<close> map the ASCII letters and leave every
  other character as it is.
\<close>

definition upper_char :: "char \<Rightarrow> char" where
  "upper_char c =
     (case map_of (zip ''abcdefghijklmnopqrstuvwxyz'' ''ABCDEFGHIJKLMNOPQRSTUVWXYZ'') c of
        Some u \<Rightarrow> u
      | None \<Rightarrow> c)"

definition upper :: "string \<Rightarrow> string" where
  "upper s = map upper_char s"

definition lower_char :: "char \<Rightarrow> char" where
  "lower_char c =
     (case map_of (zip ''ABCDEFGHIJKLMNOPQRSTUVWXYZ'' ''abcdefghijklmnopqrstuvwxyz'') c of
        Some l \<Rightarrow> l
      | None \<Rightarrow> c)"

definition lower :: "string \<Rightarrow> string" where
  "lower s = map lower_char s"

text \<open>\<open>str(n)\<close> for a non-negative integer: its decimal digits.\<close>

definition digit_char :: "nat \<Rightarrow> char" where
  "digit_char d = ''0123456789'' ! d"

fun str_nat :: "nat \<Rightarrow> string" where
  "str_nat n =
     (if n < 10 then [digit_char n] else str_nat (n div 10) @ [digit_char (n mod 10)])"

declare str_nat.simps [simp del]

text \<open>
  The clock: \<open>clk n\<close> is what the \<open>n\<close>-th call of \<open>datetime.now().isoformat()\<close>
  returns. The store counts the calls made so far (\<open>ticks\<close>).
\<close>

type_synonym clock = "nat \<Rightarrow> string"


section \<open>Items, documents and the store\<close>

record BacklogItem =
  item_id :: pyval
  title :: pyval
  description :: pyval
  priority :: pyval
  status :: pyval
  sprint :: pyval
  epic :: pyval
  assignee :: pyval
  story_points :: pyval
  created_at :: pyval
  updated_at :: pyval

text \<open>
  A project document as \<open>yaml.safe_load\<close> returns it: a list of mappings, or content
  whose loading raises. The YAML text between \<open>yaml.dump\<close> and \<open>yaml.safe_load\<close> is the
  library's business; the model keeps the data that was dumped.
\<close>

type_synonym pydict = "(string \<times> pyval) list"

datatype yaml_doc = Unparsable | Records "pydict list"

text \<open>
  The manager: the \<open>projects\<close> dictionary (insertion-ordered), the documents in the
  data directory keyed by file stem, and the number of clock readings taken.
\<close>

record BacklogManager =
  projects :: "(string \<times> BacklogItem list) list"
  files :: "(string \<times> yaml_doc) list"
  ticks :: nat

definition field_names :: "string list" where
  "field_names = [''id'', ''title'', ''description'', ''priority'', ''status'', ''sprint'',
     ''epic'', ''assignee'', ''story_points'', ''created_at'', ''updated_at'']"

definition required_fields :: "string list" where
  "required_fields = [''id'', ''title'', ''description'', ''priority'', ''status'']"

text \<open>\<open>asdict(item)\<close>: the fields in declaration order.\<close>

definition asdict :: "BacklogItem \<Rightarrow> pydict" where
  "asdict item =
     [(''id'', item_id item), (''title'', title item), (''description'', description item),
      (''priority'', priority item), (''status'', status item), (''sprint'', sprint item),
      (''epic'', epic item), (''assignee'', assignee item),
      (''story_points'', story_points item), (''created_at'', created_at item),
      (''updated_at'', updated_at item)]"

text \<open>
  \<open>__post_init__\<close>: \<open>created_at\<close> is stamped only when it is falsy, \<open>updated_at\<close> is
  stamped always. Each stamp is one reading of the clock.
\<close>

definition post_init :: "clock \<Rightarrow> BacklogItem \<Rightarrow> nat \<Rightarrow> BacklogItem \<times> nat" where
  "post_init clk item t =
     (if \<not> truthy (created_at item)
      then (item\<lparr>created_at := PStr (clk t), updated_at := PStr (clk (t + 1))\<rparr>, t + 2)
      else (item\<lparr>updated_at := PStr (clk t)\<rparr>, t + 1))"

definition kw :: "pydict \<Rightarrow> string \<Rightarrow> pyval" where
  "kw d k = (case map_of d k of Some v \<Rightarrow> v | None \<Rightarrow> PNone)"

text \<open>
  \<open>BacklogItem(**d)\<close>: the generated \<open>__init__\<close> raises \<open>TypeError\<close> (here \<open>None\<close>) on a
  keyword that is no field and on a missing required field; the optional fields
  default to \<open>None\<close>.
\<close>

definition BacklogItem_init :: "clock \<Rightarrow> pydict \<Rightarrow> nat \<Rightarrow> (BacklogItem \<times> nat) option" where
  "BacklogItem_init clk d t =
     (if list_all (\<lambda>k. k \<in> set field_names) (map fst d)
         \<and> list_all (\<lambda>k. k \<in> set (map fst d)) required_fields
      then Some (post_init clk
        \<lparr>item_id = kw d ''id'', title = kw d ''title'', description = kw d ''description'',
         priority = kw d ''priority'', status = kw d ''status'', sprint = kw d ''sprint'',
         epic = kw d ''epic'', assignee = kw d ''assignee'',
         story_points = kw d ''story_points'', created_at = kw d ''created_at'',
         updated_at = kw d ''updated_at''\<rparr> t)
      else None)"


section \<open>Identifier generation\<close>

text \<open>
  The \<open>while\<close> loop of \<open>generate_item_id\<close>: advance the counter while
  \<open><prefix>-<counter>\<close> is among the existing identifiers.
\<close>

function id_scan :: "string \<Rightarrow> pyval list \<Rightarrow> nat \<Rightarrow> nat" where
  "id_scan prefix existing_ids counter =
     (if PStr (prefix @ ''-'' @ str_nat counter) \<in> set existing_ids
      then id_scan prefix existing_ids (counter + 1)
      else counter)"
  by pat_completeness auto

definition pending :: "string \<Rightarrow> pyval list \<Rightarrow> nat \<Rightarrow> nat set" where
  "pending prefix ids c = {k. c \<le> k \<and> PStr (prefix @ ''-'' @ str_nat k) \<in> set ids}"

lemma digit_val: "a < 10 \<Longrightarrow> of_char (digit_char a) = 48 + a"
proof -
  assume "a < 10"
  then have "a \<in> {0, 1, 2, 3, 4, 5, 6, 7, 8, 9}" by auto
  then show ?thesis unfolding digit_char_def by auto
qed

lemma digit_char_inj: "a < 10 \<Longrightarrow> b < 10 \<Longrightarrow> digit_char a = digit_char b \<Longrightarrow> a = b"
  by (metis digit_val add_left_cancel)

lemma str_nat_nonempty: "str_nat n \<noteq> []"
  by (subst str_nat.simps) simp

lemma str_nat_inj: "str_nat n = str_nat m \<Longrightarrow> n = m"
proof (induction n arbitrary: m rule: str_nat.induct)
  case (1 n)
  show ?case
  proof (cases "n < 10")
    case True
    show ?thesis
    proof (cases "m < 10")
      case True
      with \<open>n < 10\<close> "1.prems" show ?thesis
        by (simp add: str_nat.simps[of n] str_nat.simps[of m] digit_char_inj)
    next
      case False
      with \<open>n < 10\<close> "1.prems" show ?thesis
        using str_nat_nonempty[of "m div 10"]
        by (simp add: str_nat.simps[of n] str_nat.simps[of m])
    qed
  next
    case False
    show ?thesis
    proof (cases "m < 10")
      case True
      with False "1.prems" show ?thesis
        using str_nat_nonempty[of "n div 10"]
        by (simp add: str_nat.simps[of n] str_nat.simps[of m])
    next
      case mf: False
      from False mf "1.prems" have e: "str_nat (n div 10) = str_nat (m div 10)"
        and d: "digit_char (n mod 10) = digit_char (m mod 10)"
        by (simp_all add: str_nat.simps[of n] str_nat.simps[of m])
      from "1.IH"[OF False e] have "n div 10 = m div 10" .
      moreover from d have "n mod 10 = m mod 10" by (simp add: digit_char_inj)
      ultimately show ?thesis by (metis div_mult_mod_eq)
    qed
  qed
qed

lemma finite_pending: "finite (pending prefix ids c)"
proof -
  let ?f = "\<lambda>k. PStr (prefix @ ''-'' @ str_nat k)"
  have "inj ?f" by (auto simp: inj_on_def dest: str_nat_inj)
  then have "finite (?f -` set ids)" by (simp add: finite_vimageI)
  moreover have "pending prefix ids c \<subseteq> ?f -` set ids" by (auto simp: pending_def)
  ultimately show ?thesis by (rule rev_finite_subset)
qed

termination id_scan
proof (relation "measure (\<lambda>(prefix, ids, c). card (pending prefix ids c))")
  show "wf (measure (\<lambda>(prefix, ids, c). card (pending prefix ids c)))" by simp
next
  fix prefix :: string and existing_ids :: "pyval list" and counter :: nat
  assume m: "PStr (prefix @ ''-'' @ str_nat counter) \<in> set existing_ids"
  have "counter \<in> pending prefix existing_ids counter"
    and "counter \<notin> pending prefix existing_ids (counter + 1)"
    and "pending prefix existing_ids (counter + 1) \<subseteq> pending prefix existing_ids counter"
    using m by (auto simp: pending_def)
  then have "pending prefix existing_ids (counter + 1) \<subset> pending prefix existing_ids counter"
    by blast
  then have "card (pending prefix existing_ids (counter + 1))
      < card (pending prefix existing_ids counter)"
    by (simp add: finite_pending psubset_card_mono)
  then show "((prefix, existing_ids, counter + 1), (prefix, existing_ids, counter))
      \<in> measure (\<lambda>(prefix, ids, c). card (pending prefix ids c))" by simp
qed

declare id_scan.simps [simp del]

definition generate_item_id :: "BacklogManager \<Rightarrow> string \<Rightarrow> string" where
  "generate_item_id st project_name =
     (case map_of (projects st) project_name of
        None \<Rightarrow> upper project_name @ ''-1''
      | Some items \<Rightarrow>
          (let existing_ids = map item_id items;
               counter = length existing_ids + 1
           in upper project_name @ ''-'' @
              str_nat (id_scan (upper project_name) existing_ids counter)))"


section \<open>Persistence\<close>

text \<open>
  \<open>save_project\<close> overwrites the project's document with the dumped item list. The
  write is taken to succeed; the \<open>except\<close> branch only prints.
\<close>

definition save_project :: "BacklogManager \<Rightarrow> string \<Rightarrow> BacklogManager" where
  "save_project st project_name =
     (case map_of (projects st) project_name of
        None \<Rightarrow> st
      | Some items \<Rightarrow>
          st\<lparr>files := AList.update project_name (Records (map asdict items)) (files st)\<rparr>)"

text \<open>
  The list comprehension of \<open>load_projects\<close>: one construction per record, the first
  one that raises abandons the project (the clock readings already taken stay taken).
\<close>

fun load_items :: "clock \<Rightarrow> pydict list \<Rightarrow> nat \<Rightarrow> BacklogItem list option \<times> nat" where
  "load_items clk [] t = (Some [], t)"
| "load_items clk (d # ds) t =
     (case BacklogItem_init clk d t of
        None \<Rightarrow> (None, t)
      | Some (item, t') \<Rightarrow>
          (case load_items clk ds t' of
             (None, t'') \<Rightarrow> (None, t'')
           | (Some items, t'') \<Rightarrow> (Some (item # items), t'')))"

fun load_files :: "clock \<Rightarrow> (string \<times> yaml_doc) list \<Rightarrow> BacklogManager \<Rightarrow> BacklogManager" where
  "load_files clk [] st = st"
| "load_files clk ((project_name, doc) # rest) st =
     (case doc of
        Unparsable \<Rightarrow> load_files clk rest st
      | Records data \<Rightarrow>
          (case load_items clk data (ticks st) of
             (None, t) \<Rightarrow> load_files clk rest (st\<lparr>ticks := t\<rparr>)
           | (Some items, t) \<Rightarrow>
               load_files clk rest
                 (st\<lparr>projects := AList.update project_name items (projects st), ticks := t\<rparr>)))"

definition load_projects :: "clock \<Rightarrow> BacklogManager \<Rightarrow> BacklogManager" where
  "load_projects clk st = load_files clk (files st) st"

text \<open>
  \<open>BacklogManager(data_dir)\<close> over a directory holding the documents \<open>dir\<close>, when the
  clock has been read \<open>t\<close> times.
\<close>

definition BacklogManager_init :: "clock \<Rightarrow> (string \<times> yaml_doc) list \<Rightarrow> nat \<Rightarrow> BacklogManager" where
  "BacklogManager_init clk dir t = load_projects clk \<lparr>projects = [], files = dir, ticks = t\<rparr>"


section \<open>Project and item operations\<close>

text \<open>
  Each operation returns the boolean the method returns and the manager afterwards.
  Console output is left out. The answer given to \<open>Confirm.ask\<close> is the argument
  \<open>confirm\<close>; it is consulted only where the source asks. Assigning to a key of
  the \<open>projects\<close> dictionary is \<open>AList.update\<close>: the value is replaced in place,
  or the key is appended. The keyword parameters of \<open>add_item\<close> are passed in full;
  a caller that omits them passes the defaults of the source (\<open>"medium"\<close> for the
  priority, \<open>None\<close> for the others).
\<close>

definition create_project :: "BacklogManager \<Rightarrow> string \<Rightarrow> bool \<times> BacklogManager" where
  "create_project st project_name =
     (case map_of (projects st) project_name of
        Some items \<Rightarrow> (False, st)
      | None \<Rightarrow>
          (True, save_project (st\<lparr>projects := AList.update project_name [] (projects st)\<rparr>)
                   project_name))"

definition delete_project :: "BacklogManager \<Rightarrow> string \<Rightarrow> bool \<Rightarrow> bool \<times> BacklogManager" where
  "delete_project st project_name confirm =
     (case map_of (projects st) project_name of
        None \<Rightarrow> (False, st)
      | Some items \<Rightarrow>
          (if confirm
           then (True, st\<lparr>files := AList.delete project_name (files st),
                           projects := AList.delete project_name (projects st)\<rparr>)
           else (False, st)))"

definition add_item ::
  "clock \<Rightarrow> BacklogManager \<Rightarrow> string \<Rightarrow> pyval \<Rightarrow> pyval \<Rightarrow> pyval \<Rightarrow> pyval \<Rightarrow> pyval \<Rightarrow> pyval \<Rightarrow> pyval
    \<Rightarrow> bool \<times> BacklogManager" where
  "add_item clk st project_name title' description' priority' sprint' epic' assignee'
      story_points' =
     (case map_of (projects st) project_name of
        None \<Rightarrow> (False, st)
      | Some items \<Rightarrow>
          (case post_init clk
                  \<lparr>item_id = PStr (generate_item_id st project_name), title = title',
                   description = description', priority = priority', status = PStr ''todo'',
                   sprint = sprint', epic = epic', assignee = assignee',
                   story_points = story_points', created_at = PNone, updated_at = PNone\<rparr>
                  (ticks st) of
             (item, t) \<Rightarrow>
               (True, save_project
                  (st\<lparr>projects := AList.update project_name (items @ [item]) (projects st),
                      ticks := t\<rparr>)
                  project_name)))"

text \<open>
  \<open>hasattr(item, key)\<close> holds for the eleven fields and for the names the instance
  inherits from its class (\<open>__doc__\<close>, \<open>__class__\<close>, \<open>__dataclass_fields__\<close> and so
  on). Which names those are is Python's business, not the repository's: they are the
  parameter \<open>inherited\<close>. For a field, \<open>setattr(item, key, value)\<close> replaces the
  field. For an inherited name that is not a field, \<open>setattr\<close> stores a new instance
  attribute or raises \<open>TypeError\<close>, depending on the name and the value; the record
  of the eleven fields does not follow the call any further, and the model of
  \<open>update_item\<close> ends there with \<open>InheritedAttribute\<close>.
\<close>

datatype beyond_model = InheritedAttribute string

definition hasattr_item :: "(string \<Rightarrow> bool) \<Rightarrow> string \<Rightarrow> bool" where
  "hasattr_item inherited key = (key \<in> set field_names \<or> inherited key)"

definition setattr_item :: "string \<Rightarrow> pyval \<Rightarrow> BacklogItem \<Rightarrow> BacklogItem" where
  "setattr_item key v item =
     (if key = ''id'' then item\<lparr>item_id := v\<rparr>
      else if key = ''title'' then item\<lparr>title := v\<rparr>
      else if key = ''description'' then item\<lparr>description := v\<rparr>
      else if key = ''priority'' then item\<lparr>priority := v\<rparr>
      else if key = ''status'' then item\<lparr>status := v\<rparr>
      else if key = ''sprint'' then item\<lparr>sprint := v\<rparr>
      else if key = ''epic'' then item\<lparr>epic := v\<rparr>
      else if key = ''assignee'' then item\<lparr>assignee := v\<rparr>
      else if key = ''story_points'' then item\<lparr>story_points := v\<rparr>
      else if key = ''created_at'' then item\<lparr>created_at := v\<rparr>
      else if key = ''updated_at'' then item\<lparr>updated_at := v\<rparr>
      else item)"

definition getattr_item :: "string \<Rightarrow> BacklogItem \<Rightarrow> pyval" where
  "getattr_item key item = kw (asdict item) key"

text \<open>The loop over \<open>kwargs.items()\<close>.\<close>

fun apply_kwargs ::
  "(string \<Rightarrow> bool) \<Rightarrow> pydict \<Rightarrow> BacklogItem \<Rightarrow> beyond_model + BacklogItem" where
  "apply_kwargs inherited [] item = Inr item"
| "apply_kwargs inherited ((key, v) # rest) item =
     (if hasattr_item inherited key \<and> v \<noteq> PNone
      then (if key \<in> set field_names
            then apply_kwargs inherited rest (setattr_item key v item)
            else Inl (InheritedAttribute key))
      else apply_kwargs inherited rest item)"

text \<open>
  The loop \<open>for item in items: if item.id == item_id\<close>: the first item with the
  identifier is rewritten; \<open>None\<close> when the loop ends without a match.
\<close>

fun update_first ::
  "pyval \<Rightarrow> (BacklogItem \<Rightarrow> beyond_model + BacklogItem) \<Rightarrow> BacklogItem list
    \<Rightarrow> beyond_model + BacklogItem list option" where
  "update_first iid f [] = Inr None"
| "update_first iid f (item # rest) =
     (if item_id item = iid
      then (case f item of
              Inl e \<Rightarrow> Inl e
            | Inr item' \<Rightarrow> Inr (Some (item' # rest)))
      else (case update_first iid f rest of
              Inl e \<Rightarrow> Inl e
            | Inr None \<Rightarrow> Inr None
            | Inr (Some items') \<Rightarrow> Inr (Some (item # items'))))"

definition update_item ::
  "(string \<Rightarrow> bool) \<Rightarrow> clock \<Rightarrow> BacklogManager \<Rightarrow> string \<Rightarrow> pyval \<Rightarrow> pydict
    \<Rightarrow> beyond_model + bool \<times> BacklogManager" where
  "update_item inherited clk st project_name iid kwargs =
     (case map_of (projects st) project_name of
        None \<Rightarrow> Inr (False, st)
      | Some items \<Rightarrow>
          (case update_first iid
                  (\<lambda>item. case apply_kwargs inherited kwargs item of
                             Inl e \<Rightarrow> Inl e
                           | Inr item' \<Rightarrow> Inr (item'\<lparr>updated_at := PStr (clk (ticks st))\<rparr>))
                  items of
             Inl e \<Rightarrow> Inl e
           | Inr None \<Rightarrow> Inr (False, st)
           | Inr (Some items') \<Rightarrow>
               Inr (True, save_project
                      (st\<lparr>projects := AList.update project_name items' (projects st),
                          ticks := ticks st + 1\<rparr>)
                      project_name)))"


text \<open>The loop of \<open>delete_item\<close>: the first item with the identifier is removed.\<close>

fun delete_first :: "pyval \<Rightarrow> BacklogItem list \<Rightarrow> BacklogItem list option" where
  "delete_first iid [] = None"
| "delete_first iid (item # rest) =
     (if item_id item = iid then Some rest
      else map_option ((#) item) (delete_first iid rest))"

definition delete_item ::
  "BacklogManager \<Rightarrow> string \<Rightarrow> pyval \<Rightarrow> bool \<Rightarrow> bool \<times> BacklogManager" where
  "delete_item st project_name iid confirm =
     (case map_of (projects st) project_name of
        None \<Rightarrow> (False, st)
      | Some items \<Rightarrow>
          (case delete_first iid items of
             None \<Rightarrow> (False, st)
           | Some items' \<Rightarrow>
               (if confirm
                then (True, save_project
                        (st\<lparr>projects := AList.update project_name items' (projects st)\<rparr>)
                        project_name)
                else (False, st))))"


section \<open>Listing with filters\<close>

text \<open>The four \<open>if filter:\<close> steps, in the order of the source.\<close>

definition apply_filters ::
  "pyval \<Rightarrow> pyval \<Rightarrow> pyval \<Rightarrow> pyval \<Rightarrow> BacklogItem list \<Rightarrow> BacklogItem list" where
  "apply_filters priority' sprint' epic' status' items =
     (let f1 = (if truthy priority' then filter (\<lambda>item. priority item = priority') items
                else items);
          f2 = (if truthy sprint' then filter (\<lambda>item. sprint item = sprint') f1 else f1);
          f3 = (if truthy epic' then filter (\<lambda>item. epic item = epic') f2 else f2)
      in if truthy status' then filter (\<lambda>item. status item = status') f3 else f3)"

text \<open>
  Building the row of an item evaluates \<open>len(item.title)\<close>, which raises \<open>TypeError\<close>
  unless the title is a string; on field values that are \<open>None\<close>, strings or integers
  nothing else in the row's expressions raises before the row is handed to rich.
\<close>

definition row_builds :: "BacklogItem \<Rightarrow> bool" where
  "row_builds item = (case title item of PStr s \<Rightarrow> True | _ \<Rightarrow> False)"

text \<open>
  A table is a project name with the items shown. \<open>Table.add_row\<close> and
  \<open>console.print\<close> belong to the rich library, which raises on a cell it cannot
  render and on malformed markup. Whether rich builds and prints the table of a project
  without raising is the parameter \<open>renders\<close> of the listing.
\<close>

type_synonym table = "string \<times> BacklogItem list"

text \<open>
  The loop over \<open>projects_to_show\<close>: the tables printed, and whether the loop was left
  by an exception. A project without items, or without items left after filtering, is
  skipped. For any other project the rows are built and the table is printed; when
  that raises, the loop ends there and the later projects are not reached.
\<close>

fun tables ::
  "(string \<Rightarrow> BacklogItem list \<Rightarrow> bool) \<Rightarrow> pyval \<Rightarrow> pyval \<Rightarrow> pyval \<Rightarrow> pyval
    \<Rightarrow> (string \<times> BacklogItem list) list \<Rightarrow> table list \<times> bool" where
  "tables renders priority' sprint' epic' status' [] = ([], False)"
| "tables renders priority' sprint' epic' status' ((proj_name, items) # rest) =
     (if items = [] then tables renders priority' sprint' epic' status' rest
      else if apply_filters priority' sprint' epic' status' items = []
        then tables renders priority' sprint' epic' status' rest
      else if list_all row_builds (apply_filters priority' sprint' epic' status' items)
              \<and> renders proj_name (apply_filters priority' sprint' epic' status' items)
        then (case tables renders priority' sprint' epic' status' rest of
                (printed, raised) \<Rightarrow>
                  ((proj_name, apply_filters priority' sprint' epic' status' items) # printed,
                   raised))
      else ([], True))"

text \<open>
  What a call of \<open>list_items\<close> does: it takes the branch of the project that is not
  found (a message, no table), or it prints tables and returns, or it prints tables
  and is left by an exception.
\<close>

datatype listing = NotFound | Printed "table list" | Raised "table list"

definition listing_of :: "table list \<times> bool \<Rightarrow> listing" where
  "listing_of r = (case r of (printed, raised) \<Rightarrow> if raised then Raised printed else Printed printed)"

definition list_items ::
  "(string \<Rightarrow> BacklogItem list \<Rightarrow> bool) \<Rightarrow> BacklogManager \<Rightarrow> string option
    \<Rightarrow> pyval \<Rightarrow> pyval \<Rightarrow> pyval \<Rightarrow> pyval \<Rightarrow> listing" where
  "list_items renders st project_name priority' sprint' epic' status' =
     (case project_name of
        None \<Rightarrow> listing_of (tables renders priority' sprint' epic' status' (projects st))
      | Some name \<Rightarrow>
          (if name = []
           then listing_of (tables renders priority' sprint' epic' status' (projects st))
           else (case map_of (projects st) name of
                   None \<Rightarrow> NotFound
                 | Some items \<Rightarrow>
                     listing_of (tables renders priority' sprint' epic' status'
                       [(name, items)]))))"


section \<open>Filter arguments of the interactive shell\<close>

text \<open>\<open>s.startswith(prefix)\<close>.\<close>

definition startswith :: "string \<Rightarrow> string \<Rightarrow> bool" where
  "startswith s prefix = (take (length prefix) s = prefix)"

text \<open>
  The \<open>while i < len(args)\<close> loop of \<open>parse_filter_args\<close>, with the index and the
  dictionary built so far.
\<close>

function parse_filter_loop ::
  "string list \<Rightarrow> nat \<Rightarrow> (string \<rightharpoonup> string) \<Rightarrow> (string \<rightharpoonup> string)" where
  "parse_filter_loop args i filters =
     (if i < length args then
        (if startswith (args ! i) ''--'' then
           (if i + 1 < length args \<and> \<not> startswith (args ! (i + 1)) ''--''
            then parse_filter_loop args (i + 2) (filters(drop 2 (args ! i) \<mapsto> args ! (i + 1)))
            else parse_filter_loop args (i + 1) filters)
         else parse_filter_loop args (i + 1) filters)
      else filters)"
  by pat_completeness auto
termination
  by (relation "measure (\<lambda>(args, i, filters). length args - i)") auto

declare parse_filter_loop.simps [simp del]

definition parse_filter_args :: "string list \<Rightarrow> (string \<rightharpoonup> string)" where
  "parse_filter_args args = parse_filter_loop args 0 Map.empty"

text \<open>
  The pairing in the words of the specification: each token starting with \<open>--\<close> is a
  key (the token without its first two characters) and takes the next token as its
  value, unless the next token starts with \<open>--\<close> or there is none; then the key is
  skipped. Any other token that is not taken as a value is ignored.
\<close>

fun filter_pairs :: "string list \<Rightarrow> (string \<times> string) list" where
  "filter_pairs [] = []"
| "filter_pairs [a] = []"
| "filter_pairs (a # b # rest) =
     (if startswith a ''--'' then
        (if startswith b ''--'' then filter_pairs (b # rest)
         else (drop 2 a, b) # filter_pairs rest)
      else filter_pairs (b # rest))"

text \<open>The same pairs read off the positions of the argument list.\<close>

definition pair_at :: "string list \<Rightarrow> nat \<Rightarrow> bool" where
  "pair_at args i =
     (i + 1 < length args \<and> startswith (args ! i) ''--'' \<and> \<not> startswith (args ! (i + 1)) ''--'')"

definition pairs_by_position :: "string list \<Rightarrow> (string \<times> string) list" where
  "pairs_by_position args =
     map (\<lambda>i. (drop 2 (args ! i), args ! (i + 1))) (filter (pair_at args) [0..<length args])"

section \<open>Command lines of the interactive shell\<close>

text \<open>
  \<open>str.isspace\<close> on an ASCII character, \<open>str.strip()\<close> and \<open>str.split()\<close> without
  arguments.
\<close>

definition py_isspace :: "char \<Rightarrow> bool" where
  "py_isspace c =
     (c \<in> set [CHR 0x09, CHR 0x0A, CHR 0x0B, CHR 0x0C, CHR 0x0D, CHR 0x1C, CHR 0x1D, CHR 0x1E,
               CHR 0x1F, CHR '' ''])"

definition strip :: "string \<Rightarrow> string" where
  "strip s = rev (dropWhile py_isspace (rev (dropWhile py_isspace s)))"

fun split_words :: "string \<Rightarrow> string \<Rightarrow> string list" where
  "split_words word [] = (if word = [] then [] else [word])"
| "split_words word (c # cs) =
     (if py_isspace c then (if word = [] then split_words [] cs else word # split_words [] cs)
      else split_words (word @ [c]) cs)"

definition py_split :: "string \<Rightarrow> string list" where
  "py_split s = split_words [] s"

text \<open>
  \<open>shlex.split(s)\<close> of the standard library, which \<open>parse_command\<close> calls: a lexer in
  POSIX mode with \<open>whitespace_split\<close> set and no comment characters. The function
  below is the loop of its \<open>read_token\<close>, iterated until the input ends: the lexer's
  state (between words, in a word, inside quotes, after the escape character), the
  state to return to after an escape, the token read so far, whether the token had
  quotes, and the input left. \<open>None\<close> is the \<open>ValueError\<close> raised when the input ends
  inside quotes or after the escape character.
\<close>

definition whitespace :: string where
  "whitespace = [CHR '' '', CHR 0x09, CHR 0x0D, CHR 0x0A]"

definition quotes :: string where
  "quotes = [CHR 0x27, CHR 0x22]"

definition escape :: string where
  "escape = [CHR 0x5C]"

definition escapedquotes :: string where
  "escapedquotes = [CHR 0x22]"

datatype lex_state = InWhitespace | InWord | InQuotes char | InEscape

fun read_tokens ::
  "lex_state \<Rightarrow> lex_state \<Rightarrow> string \<Rightarrow> bool \<Rightarrow> string \<Rightarrow> string list option" where
  "read_tokens InWhitespace escapedstate token quoted [] =
     Some (if token \<noteq> [] \<or> quoted then [token] else [])"
| "read_tokens InWord escapedstate token quoted [] =
     Some (if token \<noteq> [] \<or> quoted then [token] else [])"
| "read_tokens (InQuotes q) escapedstate token quoted [] = None"
| "read_tokens InEscape escapedstate token quoted [] = None"
| "read_tokens InWhitespace escapedstate token quoted (c # cs) =
     (if c \<in> set whitespace then
        (if token \<noteq> [] \<or> quoted
         then map_option ((#) token) (read_tokens InWhitespace InWhitespace [] False cs)
         else read_tokens InWhitespace escapedstate token quoted cs)
      else if c \<in> set escape then read_tokens InEscape InWord token quoted cs
      else if c \<in> set quotes then read_tokens (InQuotes c) escapedstate token quoted cs
      else read_tokens InWord escapedstate [c] quoted cs)"
| "read_tokens (InQuotes q) escapedstate token quoted (c # cs) =
     (if c = q then read_tokens InWord escapedstate token True cs
      else if c \<in> set escape \<and> q \<in> set escapedquotes
        then read_tokens InEscape (InQuotes q) token True cs
      else read_tokens (InQuotes q) escapedstate (token @ [c]) True cs)"
| "read_tokens InEscape escapedstate token quoted (c # cs) =
     read_tokens escapedstate escapedstate
       ((case escapedstate of
           InQuotes q \<Rightarrow> (if c \<notin> set escape \<and> c \<noteq> q then token @ escape else token)
         | _ \<Rightarrow> token) @ [c])
       quoted cs"
| "read_tokens InWord escapedstate token quoted (c # cs) =
     (if c \<in> set whitespace then
        (if token \<noteq> [] \<or> quoted
         then map_option ((#) token) (read_tokens InWhitespace InWhitespace [] False cs)
         else read_tokens InWhitespace escapedstate token quoted cs)
      else if c \<in> set quotes then read_tokens (InQuotes c) escapedstate token quoted cs
      else if c \<in> set escape then read_tokens InEscape InWord token quoted cs
      else read_tokens InWord escapedstate (token @ [c]) quoted cs)"

definition shlex_split :: "string \<Rightarrow> string list option" where
  "shlex_split s = read_tokens InWhitespace InWhitespace [] False s"

text \<open>\<open>parse_command\<close>: the \<open>except ValueError\<close> branch splits on whitespace.\<close>

definition parse_command :: "string \<Rightarrow> string option \<times> string list" where
  "parse_command user_input =
     (case shlex_split (strip user_input) of
        Some parts \<Rightarrow>
          (if parts = [] then (None, []) else (Some (lower (hd parts)), tl parts))
      | None \<Rightarrow>
          (let parts = py_split (strip user_input)
           in if parts = [] then (None, []) else (Some (lower (hd parts)), tl parts)))"

section \<open>Example data\<close>

definition example_item :: "string \<Rightarrow> string \<Rightarrow> BacklogItem" where
  "example_item i t =
     \<lparr>item_id = PStr i, title = PStr t, description = PStr ''text'',
      priority = PStr ''medium'', status = PStr ''todo'', sprint = PNone, epic = PNone,
      assignee = PNone, story_points = PNone, created_at = PStr ''T0'',
      updated_at = PStr ''T0''\<rparr>"

text \<open>A project that held \<open>P-1\<close>, \<open>P-2\<close>, \<open>P-3\<close> and lost \<open>P-2\<close>.\<close>

definition gap_store :: BacklogManager where
  "gap_store =
     \<lparr>projects = [(''p'', [example_item ''P-1'' ''a'', example_item ''P-3'' ''c''])],
      files = [], ticks = 0\<rparr>"


text \<open>Two projects with items of several priorities and statuses.\<close>

definition two_project_store :: BacklogManager where
  "two_project_store =
     \<lparr>projects =
        [(''web'', [(example_item ''WEB-1'' ''a'')\<lparr>priority := PStr ''high''\<rparr>,
                   (example_item ''WEB-2'' ''b'')\<lparr>priority := PStr ''high'',
                                                  status := PStr ''done''\<rparr>,
                   example_item ''WEB-3'' ''c'']),
         (''api'', [example_item ''API-1'' ''d''])],
      files = [], ticks = 0\<rparr>"


section \<open>Notions used to state the listing properties\<close>

text \<open>
  A filter value lets a field value pass when the filter is falsy (\<open>None\<close>, the empty
  string) or equal to the field value.
\<close>

definition passes :: "pyval \<Rightarrow> pyval \<Rightarrow> bool" where
  "passes f v = (\<not> truthy f \<or> v = f)"

text \<open>
  The projects a listing ranges over: all of them when no project (or the empty name)
  is given, the named one otherwise; \<open>None\<close> when the named project does not exist.
\<close>

definition shown_projects ::
  "BacklogManager \<Rightarrow> string option \<Rightarrow> (string \<times> BacklogItem list) list option" where
  "shown_projects st project_name =
     (case project_name of
        None \<Rightarrow> Some (projects st)
      | Some name \<Rightarrow>
          (if name = [] then Some (projects st)
           else map_option (\<lambda>items. [(name, items)]) (map_of (projects st) name)))"

text \<open>
  The tables of a list of projects: per project the items that pass the filters, a
  project left without such items being omitted.
\<close>

definition matching_tables ::
  "pyval \<Rightarrow> pyval \<Rightarrow> pyval \<Rightarrow> pyval \<Rightarrow> (string \<times> BacklogItem list) list \<Rightarrow> table list" where
  "matching_tables pf sf ef stf ps =
     filter (\<lambda>(n, its). its \<noteq> [])
       (map (\<lambda>(n, its). (n, filter (\<lambda>item. passes pf (priority item)
           \<and> passes sf (sprint item) \<and> passes ef (epic item)
           \<and> passes stf (status item)) its)) ps)"

text \<open>
  A table can be shown when every title in it is a string and rich renders it.
\<close>

definition table_shows :: "(string \<Rightarrow> BacklogItem list \<Rightarrow> bool) \<Rightarrow> table \<Rightarrow> bool" where
  "table_shows renders t = (case t of (n, its) \<Rightarrow> list_all row_builds its \<and> renders n its)"

text \<open>A rich library that renders every table, for the examples.\<close>

definition renders_all :: "string \<Rightarrow> BacklogItem list \<Rightarrow> bool" where
  "renders_all n its = True"

text \<open>
  The listing in the words of the specification: every supplied (non-null) filter
  value must equal the item's field; projects left without items are omitted.
\<close>

definition supplied_match :: "pyval \<Rightarrow> pyval \<Rightarrow> bool" where
  "supplied_match f v = (f = PNone \<or> v = f)"

definition listing_as_stated ::
  "BacklogManager \<Rightarrow> string option \<Rightarrow> pyval \<Rightarrow> pyval \<Rightarrow> pyval \<Rightarrow> pyval \<Rightarrow> listing" where
  "listing_as_stated st project_name priority' sprint' epic' status' =
     (case (case project_name of
              None \<Rightarrow> Some (projects st)
            | Some name \<Rightarrow> map_option (\<lambda>items. [(name, items)]) (map_of (projects st) name)) of
        None \<Rightarrow> NotFound
      | Some ps \<Rightarrow>
          Printed (filter (\<lambda>(n, its). its \<noteq> [])
            (map (\<lambda>(n, its). (n, filter (\<lambda>item.
                supplied_match priority' (priority item) \<and> supplied_match sprint' (sprint item)
              \<and> supplied_match epic' (epic item) \<and> supplied_match status' (status item)) its))
              ps)))"

text \<open>A project holding an item whose title is a number, as a document can give it.\<close>

definition untitled_store :: BacklogManager where
  "untitled_store =
     \<lparr>projects =
        [(''web'', [example_item ''WEB-1'' ''a'']),
         (''api'', [(example_item ''API-1'' ''b'')\<lparr>title := PInt 123\<rparr>]),
         (''ops'', [example_item ''OPS-1'' ''c''])],
      files = [], ticks = 0\<rparr>"


section \<open>Notions used to state the update, identifier and reload properties\<close>

text \<open>
  What a request asks for the field \<open>k\<close>: the last non-null value it gives under that
  name, if any. (A Python dictionary gives each name at most once.)
\<close>

fun requested :: "pydict \<Rightarrow> string \<Rightarrow> pyval option" where
  "requested [] k = None"
| "requested ((key, v) # rest) k =
     (case requested rest k of
        Some w \<Rightarrow> Some w
      | None \<Rightarrow> (if key = k \<and> v \<noteq> PNone then Some v else None))"

text \<open>The identifiers within each project are pairwise distinct.\<close>

definition ids_distinct :: "BacklogManager \<Rightarrow> bool" where
  "ids_distinct st = list_all (\<lambda>(n, items). distinct (map item_id items)) (projects st)"

text \<open>A clock whose readings are \<open>T1\<close>, \<open>T2\<close>, ...\<close>

definition example_clock :: clock where
  "example_clock n = ''T'' @ str_nat (Suc n)"

text \<open>
  A session: a manager started on an empty directory, a project \<open>p\<close> created, two
  items added.
\<close>

definition demo_s0 :: BacklogManager where
  "demo_s0 = BacklogManager_init example_clock [] 0"

definition demo_s1 :: BacklogManager where
  "demo_s1 = snd (create_project demo_s0 ''p'')"

definition demo_s2 :: BacklogManager where
  "demo_s2 = snd (add_item example_clock demo_s1 ''p'' (PStr ''Login'') (PStr ''OAuth flow'')
     (PStr ''medium'') PNone PNone PNone PNone)"

definition demo_s3 :: BacklogManager where
  "demo_s3 = snd (add_item example_clock demo_s2 ''p'' (PStr ''Logout'') (PStr ''End session'')
     (PStr ''low'') PNone PNone PNone PNone)"

text \<open>
  Some of the names a \<open>BacklogItem\<close> instance inherits from its class, for the
  examples.
\<close>

definition example_inherited :: "string \<Rightarrow> bool" where
  "example_inherited key =
     (key \<in> set [''__class__'', ''__dict__'', ''__doc__'', ''__eq__'', ''__init__'',
                 ''__post_init__'', ''__dataclass_fields__''])"

text \<open>
  An update request: a field, a name that is no attribute of the item, a null value.
\<close>

definition example_request :: pydict where
  "example_request = [(''status'', PStr ''done''), (''points'', PInt 5), (''sprint'', PNone)]"

text \<open>The item \<open>add_item\<close> appends, after \<open>__post_init__\<close> has stamped it.\<close>

definition new_item ::
  "clock \<Rightarrow> BacklogManager \<Rightarrow> string \<Rightarrow> pyval \<Rightarrow> pyval \<Rightarrow> pyval \<Rightarrow> pyval \<Rightarrow> pyval \<Rightarrow> pyval \<Rightarrow> pyval
    \<Rightarrow> BacklogItem" where
  "new_item clk st project_name t d p s e a sp =
     \<lparr>item_id = PStr (generate_item_id st project_name), title = t, description = d,
      priority = p, status = PStr ''todo'', sprint = s, epic = e, assignee = a,
      story_points = sp, created_at = PStr (clk (ticks st)),
      updated_at = PStr (clk (ticks st + 1))\<rparr>"

text \<open>
  A reloaded item list: every item with \<open>updated_at\<close> replaced by consecutive clock
  readings, starting with reading number \<open>t\<close>.
\<close>

fun restamped :: "clock \<Rightarrow> nat \<Rightarrow> BacklogItem list \<Rightarrow> BacklogItem list" where
  "restamped clk t [] = []"
| "restamped clk t (item # rest) =
     item\<lparr>updated_at := PStr (clk t)\<rparr> # restamped clk (t + 1) rest"

text \<open>The item that the first \<open>add_item\<close> of the example session creates.\<close>

definition login_item :: BacklogItem where
  "login_item =
     \<lparr>item_id = PStr ''P-1'', title = PStr ''Login'', description = PStr ''OAuth flow'',
      priority = PStr ''medium'', status = PStr ''todo'', sprint = PNone, epic = PNone,
      assignee = PNone, story_points = PNone, created_at = PStr ''T1'',
      updated_at = PStr ''T2''\<rparr>"

text \<open>The item that the second \<open>add_item\<close> of the example session creates.\<close>

definition logout_item :: BacklogItem where
  "logout_item =
     \<lparr>item_id = PStr ''P-2'', title = PStr ''Logout'', description = PStr ''End session'',
      priority = PStr ''low'', status = PStr ''todo'', sprint = PNone, epic = PNone,
      assignee = PNone, story_points = PNone, created_at = PStr ''T3'',
      updated_at = PStr ''T4''\<rparr>"

text \<open>The example session after its first item has been given the identifier \<open>P-2\<close>.\<close>

definition duplicate_store :: BacklogManager where
  "duplicate_store =
     \<lparr>projects = [(''p'', [login_item\<lparr>item_id := PStr ''P-2'', updated_at := PStr ''T5''\<rparr>,
                          logout_item])],
      files = [(''p'', Records [asdict (login_item\<lparr>item_id := PStr ''P-2'',
                                                   updated_at := PStr ''T5''\<rparr>),
                               asdict logout_item])],
      ticks = 5\<rparr>"

text \<open>
  The project with the gap after its first item has been given the free identifier
  \<open>P-2\<close> and the status \<open>done\<close>.
\<close>

definition renamed_store :: BacklogManager where
  "renamed_store =
     \<lparr>projects = [(''p'', [(example_item ''P-1'' ''a'')\<lparr>item_id := PStr ''P-2'',
                             status := PStr ''done'', updated_at := PStr ''T1''\<rparr>,
                          example_item ''P-3'' ''c''])],
      files = [(''p'', Records [asdict ((example_item ''P-1'' ''a'')\<lparr>item_id := PStr ''P-2'',
                                  status := PStr ''done'', updated_at := PStr ''T1''\<rparr>),
                               asdict (example_item ''P-3'' ''c'')])],
      ticks = 1\<rparr>"

text \<open>The project with the gap after \<open>created_at\<close> of its first item has been set.\<close>

definition backdated_store :: BacklogManager where
  "backdated_store =
     \<lparr>projects = [(''p'', [(example_item ''P-1'' ''a'')\<lparr>created_at := PStr ''1999'',
                             updated_at := PStr ''T1''\<rparr>,
                          example_item ''P-3'' ''c''])],
      files = [(''p'', Records [asdict ((example_item ''P-1'' ''a'')\<lparr>created_at := PStr ''1999'',
                                  updated_at := PStr ''T1''\<rparr>),
                               asdict (example_item ''P-3'' ''c'')])],
      ticks = 1\<rparr>"

section \<open>Notions used to state the command-line properties\<close>

text \<open>
  The quoting rules of a POSIX shell, as a grammar of command lines that makes no
  reference to the lexer. An argument is a non-empty sequence of segments:
  a plain character (any character but a separator, a quote or a backslash); a
  backslash followed by a character, which stands for that character; a single-quoted
  string, which holds anything but a single quote and stands for itself; a
  double-quoted string, in which a backslash before a double quote or a backslash
  stands for that character alone, a backslash before any other character stands for
  both, and any other character but a double quote stands for itself. The separators
  are the space, the tab, the line feed and the carriage return.
\<close>

datatype dq_item = DChar char | DEsc char

datatype segment = Plain char | Escaped char | SingleQ string | DoubleQ "dq_item list"

fun dq_render :: "dq_item \<Rightarrow> string" where
  "dq_render (DChar c) = [c]"
| "dq_render (DEsc c) = [CHR 0x5C, c]"

fun dq_value :: "dq_item \<Rightarrow> string" where
  "dq_value (DChar c) = [c]"
| "dq_value (DEsc c) = (if c = CHR 0x22 \<or> c = CHR 0x5C then [c] else [CHR 0x5C, c])"

fun dq_ok :: "dq_item \<Rightarrow> bool" where
  "dq_ok (DChar c) = (c \<noteq> CHR 0x22 \<and> c \<noteq> CHR 0x5C)"
| "dq_ok (DEsc c) = True"

definition separator_char :: "char \<Rightarrow> bool" where
  "separator_char c = (c = CHR '' '' \<or> c = CHR 0x09 \<or> c = CHR 0x0A \<or> c = CHR 0x0D)"

fun seg_render :: "segment \<Rightarrow> string" where
  "seg_render (Plain c) = [c]"
| "seg_render (Escaped c) = [CHR 0x5C, c]"
| "seg_render (SingleQ s) = CHR 0x27 # s @ [CHR 0x27]"
| "seg_render (DoubleQ ds) = CHR 0x22 # concat (map dq_render ds) @ [CHR 0x22]"

fun seg_value :: "segment \<Rightarrow> string" where
  "seg_value (Plain c) = [c]"
| "seg_value (Escaped c) = [c]"
| "seg_value (SingleQ s) = s"
| "seg_value (DoubleQ ds) = concat (map dq_value ds)"

fun seg_ok :: "segment \<Rightarrow> bool" where
  "seg_ok (Plain c) =
     (\<not> separator_char c \<and> c \<noteq> CHR 0x27 \<and> c \<noteq> CHR 0x22 \<and> c \<noteq> CHR 0x5C)"
| "seg_ok (Escaped c) = True"
| "seg_ok (SingleQ s) = (CHR 0x27 \<notin> set s)"
| "seg_ok (DoubleQ ds) = list_all dq_ok ds"

text \<open>Whether a segment is written in quotes: such an argument counts even when empty.\<close>

fun quoted_segment :: "segment \<Rightarrow> bool" where
  "quoted_segment (Plain c) = False"
| "quoted_segment (Escaped c) = False"
| "quoted_segment (SingleQ s) = True"
| "quoted_segment (DoubleQ ds) = True"

text \<open>
  An argument as written (\<open>arg_render\<close>) and the token it stands for (\<open>arg_value\<close>).
  A line is a first argument followed by further arguments, each after a non-empty
  run of separators.
\<close>

type_synonym arg = "segment list"

definition arg_render :: "arg \<Rightarrow> string" where
  "arg_render a = concat (map seg_render a)"

definition arg_value :: "arg \<Rightarrow> string" where
  "arg_value a = concat (map seg_value a)"

definition arg_ok :: "arg \<Rightarrow> bool" where
  "arg_ok a = (a \<noteq> [] \<and> list_all seg_ok a)"

definition separator :: "string \<Rightarrow> bool" where
  "separator sep = (sep \<noteq> [] \<and> list_all separator_char sep)"

definition more_args :: "(string \<times> arg) list \<Rightarrow> string" where
  "more_args xs = concat (map (\<lambda>(sep, a). sep @ arg_render a) xs)"

definition line_render :: "arg \<Rightarrow> (string \<times> arg) list \<Rightarrow> string" where
  "line_render a0 xs = arg_render a0 @ more_args xs"

definition args_ok :: "(string \<times> arg) list \<Rightarrow> bool" where
  "args_ok xs = list_all (\<lambda>(sep, a). separator sep \<and> arg_ok a) xs"

text \<open>
  A line to which the quoting rules apply: arguments as above between leading and
  trailing whitespace. The arguments begin and end with a character that
  \<open>str.strip\<close> leaves in place (an escaped space at the very end of the line is not
  such a character).
\<close>

definition blank :: "string \<Rightarrow> bool" where
  "blank s = list_all py_isspace s"

definition quoted_line :: "string \<Rightarrow> arg \<Rightarrow> (string \<times> arg) list \<Rightarrow> string \<Rightarrow> bool" where
  "quoted_line lead a0 xs trail =
     (blank lead \<and> blank trail \<and> arg_ok a0 \<and> args_ok xs
      \<and> \<not> py_isspace (hd (line_render a0 xs)) \<and> \<not> py_isspace (last (line_render a0 xs)))"

text \<open>
  A line as naive whitespace splitting sees it: words without whitespace, each after a
  non-empty run of whitespace, between leading and trailing whitespace.
\<close>

definition word :: "string \<Rightarrow> bool" where
  "word w = (w \<noteq> [] \<and> list_all (\<lambda>c. \<not> py_isspace c) w)"

definition more_words :: "(string \<times> string) list \<Rightarrow> string" where
  "more_words ys = concat (map (\<lambda>(sep, w). sep @ w) ys)"

definition words_render :: "string \<Rightarrow> (string \<times> string) list \<Rightarrow> string" where
  "words_render w0 ys = w0 @ more_words ys"

definition words_ok :: "(string \<times> string) list \<Rightarrow> bool" where
  "words_ok ys = list_all (\<lambda>(sep, w). sep \<noteq> [] \<and> blank sep \<and> word w) ys"

definition words_line ::
  "string \<Rightarrow> string \<Rightarrow> (string \<times> string) list \<Rightarrow> string \<Rightarrow> bool" where
  "words_line lead w0 ys trail = (blank lead \<and> blank trail \<and> word w0 \<and> words_ok ys)"

text \<open>
  Balanced quoting: reading the line from left to right, every quote that opens is
  closed, and the line does not end right after a backslash that escapes. Within
  single quotes a backslash is an ordinary character.
\<close>

datatype quoting = Unquoted | SingleQuoted | DoubleQuoted | Backslashed | BackslashedInQuotes

fun quoting_after :: "quoting \<Rightarrow> string \<Rightarrow> quoting" where
  "quoting_after q [] = q"
| "quoting_after Unquoted (c # cs) =
     (if c = CHR 0x27 then quoting_after SingleQuoted cs
      else if c = CHR 0x22 then quoting_after DoubleQuoted cs
      else if c = CHR 0x5C then quoting_after Backslashed cs
      else quoting_after Unquoted cs)"
| "quoting_after SingleQuoted (c # cs) =
     (if c = CHR 0x27 then quoting_after Unquoted cs else quoting_after SingleQuoted cs)"
| "quoting_after DoubleQuoted (c # cs) =
     (if c = CHR 0x22 then quoting_after Unquoted cs
      else if c = CHR 0x5C then quoting_after BackslashedInQuotes cs
      else quoting_after DoubleQuoted cs)"
| "quoting_after Backslashed (c # cs) = quoting_after Unquoted cs"
| "quoting_after BackslashedInQuotes (c # cs) = quoting_after DoubleQuoted cs"

definition balanced :: "string \<Rightarrow> bool" where
  "balanced s = (quoting_after Unquoted s = Unquoted)"

text \<open>
  The quoting a state of the lexer stands for, and the states the lexer of
  \<open>shlex_split\<close> reaches (it opens quotes only with a quote character and escapes only
  from a word or from double quotes).
\<close>

fun quoting_of :: "lex_state \<Rightarrow> lex_state \<Rightarrow> quoting" where
  "quoting_of InWhitespace esc = Unquoted"
| "quoting_of InWord esc = Unquoted"
| "quoting_of (InQuotes q) esc = (if q = CHR 0x27 then SingleQuoted else DoubleQuoted)"
| "quoting_of InEscape esc = (case esc of InQuotes q \<Rightarrow> BackslashedInQuotes | _ \<Rightarrow> Backslashed)"

fun lexer_state_ok :: "lex_state \<Rightarrow> lex_state \<Rightarrow> bool" where
  "lexer_state_ok (InQuotes q) esc = (q = CHR 0x27 \<or> q = CHR 0x22)"
| "lexer_state_ok InEscape esc = (esc = InWord \<or> esc = InQuotes (CHR 0x22))"
| "lexer_state_ok st esc = True"

text \<open>
  A command line with a single-quoted argument, a double-quoted argument with escaped
  quotes and an argument with an escaped space, separated by a space, a tab and two
  spaces.
\<close>

definition example_command :: arg where
  "example_command = [Plain (CHR ''A''), Plain (CHR ''D''), Plain (CHR ''D'')]"

definition example_args :: "(string \<times> arg) list" where
  "example_args =
     [('' '', [SingleQ ''Login page'']),
      ([CHR 0x09], [DoubleQ [DChar (CHR ''s''), DChar (CHR ''a''), DChar (CHR ''y''),
                             DChar (CHR '' ''), DEsc (CHR 0x22), DChar (CHR ''h''),
                             DChar (CHR ''i''), DEsc (CHR 0x22)]]),
      (''  '', [Plain (CHR ''a''), Escaped (CHR '' ''), Plain (CHR ''b'')])]"

definition example_line :: string where
  "example_line =
     ''  ADD '' @ [CHR 0x27] @ ''Login page'' @ [CHR 0x27, CHR 0x09, CHR 0x22] @ ''say ''
       @ [CHR 0x5C, CHR 0x22] @ ''hi'' @ [CHR 0x5C, CHR 0x22, CHR 0x22] @ ''  a''
       @ [CHR 0x5C] @ '' b ''"


section \<open>Properties of identifier generation\<close>

lemma id_scan_result:
  "c0 \<le> id_scan p ids c0
   \<and> PStr (p @ ''-'' @ str_nat (id_scan p ids c0)) \<notin> set ids
   \<and> (\<forall>k. c0 \<le> k \<and> k < id_scan p ids c0 \<longrightarrow> PStr (p @ ''-'' @ str_nat k) \<in> set ids)"
proof (induction p ids c0 rule: id_scan.induct)
  case (1 prefix existing_ids counter)
  show ?case
  proof (cases "PStr (prefix @ ''-'' @ str_nat counter) \<in> set existing_ids")
    case True
    then have e: "id_scan prefix existing_ids counter = id_scan prefix existing_ids (counter + 1)"
      by (subst id_scan.simps) simp
    from "1.IH"[OF True]
    have a: "counter + 1 \<le> id_scan prefix existing_ids (counter + 1)"
      and b: "PStr (prefix @ ''-'' @ str_nat (id_scan prefix existing_ids (counter + 1)))
          \<notin> set existing_ids"
      and c: "\<And>k. counter + 1 \<le> k \<Longrightarrow> k < id_scan prefix existing_ids (counter + 1)
          \<Longrightarrow> PStr (prefix @ ''-'' @ str_nat k) \<in> set existing_ids"
      by blast+
    have "PStr (prefix @ ''-'' @ str_nat k) \<in> set existing_ids"
      if "counter \<le> k" and "k < id_scan prefix existing_ids (counter + 1)" for k
    proof (cases "k = counter")
      case True
      with \<open>PStr (prefix @ ''-'' @ str_nat counter) \<in> set existing_ids\<close> show ?thesis by simp
    next
      case False
      with that have "counter + 1 \<le> k" by simp
      with that c[of k] show ?thesis by simp
    qed
    with a b show ?thesis unfolding e by simp
  next
    case False
    then have "id_scan prefix existing_ids counter = counter"
      by (subst id_scan.simps) simp
    with False show ?thesis by auto
  qed
qed

text \<open>
  C4. For an existing project, \<open>generate_item_id\<close> returns \<open><NAME_UPPER>-<counter>\<close>
  where the counter is the least number from (number of current items) + 1 upwards
  whose identifier no current item carries: every smaller candidate collides, and the
  returned identifier is not among the project's current identifiers.
\<close>

theorem generate_item_id_least_free:
  assumes "map_of (projects st) project_name = Some items"
  shows "\<exists>counter.
      generate_item_id st project_name = upper project_name @ ''-'' @ str_nat counter
    \<and> length items + 1 \<le> counter
    \<and> (\<forall>k. length items + 1 \<le> k \<and> k < counter \<longrightarrow>
          PStr (upper project_name @ ''-'' @ str_nat k) \<in> set (map item_id items))
    \<and> PStr (generate_item_id st project_name) \<notin> set (map item_id items)"
proof -
  let ?ids = "map item_id items"
  let ?c = "id_scan (upper project_name) ?ids (length ?ids + 1)"
  have g: "generate_item_id st project_name = upper project_name @ ''-'' @ str_nat ?c"
    using assms by (simp add: generate_item_id_def)
  from id_scan_result[of "length ?ids + 1" "upper project_name" ?ids] g
  show ?thesis by (intro exI[of _ ?c]) simp
qed

text \<open>
  The gap example of the specification: with \<open>P-1\<close> and \<open>P-3\<close> left after \<open>P-2\<close> was
  deleted, the next identifier is \<open>P-4\<close>.
\<close>

theorem generate_item_id_least_free_witness:
  "map_of (projects gap_store) ''p''
     = Some [example_item ''P-1'' ''a'', example_item ''P-3'' ''c'']
   \<and> generate_item_id gap_store ''p'' = ''P-4''
   \<and> PStr (generate_item_id gap_store ''p'')
        \<notin> set (map item_id [example_item ''P-1'' ''a'', example_item ''P-3'' ''c''])"
proof -
  have h: "map_of (projects gap_store) ''p''
      = Some [example_item ''P-1'' ''a'', example_item ''P-3'' ''c'']"
    by (simp add: gap_store_def)
  have v: "generate_item_id gap_store ''p'' = ''P-4''"
    by (simp add: generate_item_id_def gap_store_def example_item_def upper_def upper_char_def
        id_scan.simps str_nat.simps digit_char_def)
  from h v generate_item_id_least_free[OF h] show ?thesis by blast
qed


section \<open>The example session\<close>

lemma demo_s1_val: "demo_s1 = \<lparr>projects = [(''p'', [])], files = [(''p'', Records [])], ticks = 0\<rparr>"
  by (simp add: demo_s1_def demo_s0_def BacklogManager_init_def load_projects_def
      create_project_def save_project_def)

lemma demo_s2_val:
  "demo_s2 = \<lparr>projects = [(''p'', [\<lparr>item_id = PStr ''P-1'', title = PStr ''Login'',
       description = PStr ''OAuth flow'', priority = PStr ''medium'', status = PStr ''todo'',
       sprint = PNone, epic = PNone, assignee = PNone, story_points = PNone,
       created_at = PStr ''T1'', updated_at = PStr ''T2''\<rparr>])],
     files = [(''p'', Records [[(''id'', PStr ''P-1''), (''title'', PStr ''Login''),
       (''description'', PStr ''OAuth flow''), (''priority'', PStr ''medium''),
       (''status'', PStr ''todo''), (''sprint'', PNone), (''epic'', PNone),
       (''assignee'', PNone), (''story_points'', PNone), (''created_at'', PStr ''T1''),
       (''updated_at'', PStr ''T2'')]])],
     ticks = 2\<rparr>"
  by (simp add: demo_s2_def demo_s1_val add_item_def generate_item_id_def id_scan.simps
      str_nat.simps digit_char_def upper_def upper_char_def post_init_def save_project_def
      example_clock_def asdict_def)

lemma demo_s2_ids:
  "map_option (map item_id) (map_of (projects demo_s2) ''p'') = Some [PStr ''P-1'']"
  by (simp add: demo_s2_def demo_s1_val add_item_def generate_item_id_def id_scan.simps
      str_nat.simps digit_char_def upper_def upper_char_def post_init_def save_project_def)

lemma demo_s3_ids:
  "map_option (map item_id) (map_of (projects demo_s3) ''p'') = Some [PStr ''P-1'', PStr ''P-2'']"
  by (simp add: demo_s3_def demo_s2_val add_item_def generate_item_id_def id_scan.simps
      str_nat.simps digit_char_def upper_def upper_char_def post_init_def save_project_def)


section \<open>Deletion and confirmation\<close>

lemma delete_first_split:
  "iid \<in> set (map item_id items) \<Longrightarrow>
   \<exists>pre item post. items = pre @ item # post \<and> item_id item = iid
     \<and> iid \<notin> set (map item_id pre) \<and> delete_first iid items = Some (pre @ post)"
proof (induction items)
  case Nil
  then show ?case by simp
next
  case (Cons a items)
  show ?case
  proof (cases "item_id a = iid")
    case True
    then have "a # items = [] @ a # items \<and> item_id a = iid \<and> iid \<notin> set (map item_id [])
      \<and> delete_first iid (a # items) = Some ([] @ items)" by simp
    then show ?thesis by blast
  next
    case False
    with Cons.prems have "iid \<in> set (map item_id items)" by auto
    from Cons.IH[OF this] obtain pre item post where
      "items = pre @ item # post" "item_id item = iid" "iid \<notin> set (map item_id pre)"
      "delete_first iid items = Some (pre @ post)" by blast
    with False have "a # items = (a # pre) @ item # post \<and> item_id item = iid
      \<and> iid \<notin> set (map item_id (a # pre))
      \<and> delete_first iid (a # items) = Some ((a # pre) @ post)" by auto
    then show ?thesis by blast
  qed
qed

lemma delete_project_existing:
  assumes "map_of (projects st) project_name = Some items"
  shows "delete_project st project_name False = (False, st)"
    and "fst (delete_project st project_name True)"
    and "map_of (projects (snd (delete_project st project_name True)))
          = (map_of (projects st))(project_name := None)"
    and "map_of (files (snd (delete_project st project_name True)))
          = (map_of (files st))(project_name := None)"
  using assms by (simp_all add: delete_project_def delete_conv')

lemma delete_item_existing:
  assumes "map_of (projects st) project_name = Some items"
    and "delete_first iid items = Some items'"
  shows "delete_item st project_name iid False = (False, st)"
    and "fst (delete_item st project_name iid True)"
    and "map_of (projects (snd (delete_item st project_name iid True)))
          = (map_of (projects st))(project_name \<mapsto> items')"
    and "map_of (files (snd (delete_item st project_name iid True)))
          = (map_of (files st))(project_name \<mapsto> Records (map asdict items'))"
  using assms by (simp_all add: delete_item_def save_project_def update_conv')

text \<open>
  C7. \<open>delete_project\<close> on an existing project (with or without items): when the
  confirmation is declined it returns \<open>False\<close> and the whole manager (projects, item
  lists, documents, clock) is what it was; when it is affirmed it returns \<open>True\<close>, the
  project and its document are gone and every other project and document is as before.
  \<open>delete_item\<close> on an existing item of an existing project: when the confirmation is
  declined it returns \<open>False\<close> and the whole manager is what it was; when it is affirmed
  it returns \<open>True\<close>, the first item carrying the identifier is gone from the list and
  from the saved document, and every other project and document is as before.
\<close>

theorem deletion_requires_confirmation:
  "(map_of (projects st) project_name = Some items \<longrightarrow>
        delete_project st project_name False = (False, st)
      \<and> fst (delete_project st project_name True)
      \<and> map_of (projects (snd (delete_project st project_name True)))
           = (map_of (projects st))(project_name := None)
      \<and> map_of (files (snd (delete_project st project_name True)))
           = (map_of (files st))(project_name := None))
   \<and> (map_of (projects st) project_name = Some items \<and> iid \<in> set (map item_id items) \<longrightarrow>
        delete_item st project_name iid False = (False, st)
      \<and> fst (delete_item st project_name iid True)
      \<and> (\<exists>pre item post. items = pre @ item # post \<and> item_id item = iid
            \<and> iid \<notin> set (map item_id pre)
            \<and> map_of (projects (snd (delete_item st project_name iid True)))
                = (map_of (projects st))(project_name \<mapsto> pre @ post)
            \<and> map_of (files (snd (delete_item st project_name iid True)))
                = (map_of (files st))(project_name \<mapsto> Records (map asdict (pre @ post)))))"
proof (intro conjI impI)
  assume m: "map_of (projects st) project_name = Some items"
  show "delete_project st project_name False = (False, st)"
    by (rule delete_project_existing(1)[OF m])
  show "fst (delete_project st project_name True)"
    by (rule delete_project_existing(2)[OF m])
  show "map_of (projects (snd (delete_project st project_name True)))
      = (map_of (projects st))(project_name := None)"
    by (rule delete_project_existing(3)[OF m])
  show "map_of (files (snd (delete_project st project_name True)))
      = (map_of (files st))(project_name := None)"
    by (rule delete_project_existing(4)[OF m])
next
  assume a: "map_of (projects st) project_name = Some items \<and> iid \<in> set (map item_id items)"
  then have m: "map_of (projects st) project_name = Some items" by simp
  from a delete_first_split[of iid items] obtain pre item post where
    s: "items = pre @ item # post" "item_id item = iid" "iid \<notin> set (map item_id pre)"
    and d: "delete_first iid items = Some (pre @ post)" by blast
  show "delete_item st project_name iid False = (False, st)"
    by (rule delete_item_existing(1)[OF m d])
  show "fst (delete_item st project_name iid True)"
    by (rule delete_item_existing(2)[OF m d])
  from s delete_item_existing(3)[OF m d] delete_item_existing(4)[OF m d]
  show "\<exists>pre item post. items = pre @ item # post \<and> item_id item = iid
      \<and> iid \<notin> set (map item_id pre)
      \<and> map_of (projects (snd (delete_item st project_name iid True)))
          = (map_of (projects st))(project_name \<mapsto> pre @ post)
      \<and> map_of (files (snd (delete_item st project_name iid True)))
          = (map_of (files st))(project_name \<mapsto> Records (map asdict (pre @ post)))"
    by blast
qed

text \<open>
  The project of the example session before any item is added (an existing project
  without items) and the project with two items.
\<close>

theorem deletion_requires_confirmation_witness:
  "map_of (projects demo_s1) ''p'' = Some []
   \<and> delete_project demo_s1 ''p'' False = (False, demo_s1)
   \<and> fst (delete_project demo_s1 ''p'' True)
   \<and> projects (snd (delete_project demo_s1 ''p'' True)) = []
   \<and> files (snd (delete_project demo_s1 ''p'' True)) = []
   \<and> map_of (projects gap_store) ''p''
       = Some [example_item ''P-1'' ''a'', example_item ''P-3'' ''c'']
   \<and> PStr ''P-3'' \<in> set (map item_id [example_item ''P-1'' ''a'', example_item ''P-3'' ''c''])
   \<and> delete_item gap_store ''p'' (PStr ''P-3'') False = (False, gap_store)
   \<and> delete_project gap_store ''p'' False = (False, gap_store)
   \<and> fst (delete_item gap_store ''p'' (PStr ''P-3'') True)
   \<and> map_of (projects (snd (delete_item gap_store ''p'' (PStr ''P-3'') True))) ''p''
       = Some [example_item ''P-1'' ''a'']"
proof -
  have e1: "map_of (projects demo_s1) ''p'' = Some []"
    by (simp add: demo_s1_val)
  from deletion_requires_confirmation[where st = demo_s1 and project_name = "''p''"
      and items = "[]"] e1
  have e2: "delete_project demo_s1 ''p'' False = (False, demo_s1)"
    and e3: "fst (delete_project demo_s1 ''p'' True)" by blast+
  have e4: "projects (snd (delete_project demo_s1 ''p'' True)) = []"
    and e5: "files (snd (delete_project demo_s1 ''p'' True)) = []"
    by (simp_all add: delete_project_def demo_s1_val AList.delete_eq)
  have h1: "map_of (projects gap_store) ''p''
      = Some [example_item ''P-1'' ''a'', example_item ''P-3'' ''c'']"
    by (simp add: gap_store_def)
  have h2: "PStr ''P-3''
      \<in> set (map item_id [example_item ''P-1'' ''a'', example_item ''P-3'' ''c''])"
    by (simp add: example_item_def)
  from deletion_requires_confirmation[where st = gap_store and project_name = "''p''"
      and items = "[example_item ''P-1'' ''a'', example_item ''P-3'' ''c'']"
      and iid = "PStr ''P-3''"] h1 h2
  have d: "delete_item gap_store ''p'' (PStr ''P-3'') False = (False, gap_store)"
    and d': "delete_project gap_store ''p'' False = (False, gap_store)"
    and d'': "fst (delete_item gap_store ''p'' (PStr ''P-3'') True)" by blast+
  have e: "map_of (projects (snd (delete_item gap_store ''p'' (PStr ''P-3'') True))) ''p''
       = Some [example_item ''P-1'' ''a'']"
    by (simp add: delete_item_def gap_store_def example_item_def save_project_def)
  from e1 e2 e3 e4 e5 h1 h2 d d' d'' e show ?thesis by (intro conjI)
qed


section \<open>Listing with filters: properties\<close>

lemma apply_filters_filter:
  "apply_filters pf sf ef stf items =
     filter (\<lambda>item. passes pf (priority item) \<and> passes sf (sprint item)
        \<and> passes ef (epic item) \<and> passes stf (status item)) items"
  by (simp add: apply_filters_def passes_def Let_def)

lemma matching_tables_Nil: "matching_tables pf sf ef stf [] = []"
  by (simp add: matching_tables_def)

lemma matching_tables_Cons:
  "matching_tables pf sf ef stf ((n, its) # ps) =
     (if apply_filters pf sf ef stf its = [] then matching_tables pf sf ef stf ps
      else (n, apply_filters pf sf ef stf its) # matching_tables pf sf ef stf ps)"
  by (simp add: matching_tables_def apply_filters_filter)

lemma apply_filters_Nil: "apply_filters pf sf ef stf [] = []"
  by (simp add: apply_filters_filter)

lemma tables_matching:
  "tables renders pf sf ef stf ps =
     (takeWhile (table_shows renders) (matching_tables pf sf ef stf ps),
      \<not> list_all (table_shows renders) (matching_tables pf sf ef stf ps))"
proof (induction ps)
  case Nil
  show ?case by (simp add: matching_tables_Nil)
next
  case (Cons p ps)
  obtain n its where p: "p = (n, its)" by (cases p)
  show ?case
  proof (cases "its = []")
    case True
    then show ?thesis unfolding p
      by (simp add: Cons.IH matching_tables_Cons apply_filters_Nil)
  next
    case False
    then show ?thesis unfolding p
      by (auto simp: Cons.IH matching_tables_Cons table_shows_def)
  qed
qed

text \<open>
  C5, as the specification states it, fails: a filter supplied as the empty string
  does not restrict the listing. Listing with \<open>sprint = ""\<close> shows both items of the
  project, none of which has the sprint \<open>""\<close>.
\<close>

theorem list_items_supplied_empty_counterexample:
  "list_items renders_all gap_store None PNone (PStr '''') PNone PNone
     = Printed [(''p'', [example_item ''P-1'' ''a'', example_item ''P-3'' ''c''])]
   \<and> listing_as_stated gap_store None PNone (PStr '''') PNone PNone = Printed []"
  by (simp add: list_items_def listing_as_stated_def supplied_match_def gap_store_def
      apply_filters_def example_item_def listing_of_def row_builds_def renders_all_def)

text \<open>
  C5, amended. \<open>list_items\<close> goes through the named project (through all projects, in
  their stored order, when no project or the empty name is given; a named project that
  does not exist gives the "not found" message). Per project it keeps exactly the items
  whose priority, sprint, epic and status equal every filter value that is truthy
  (neither \<open>None\<close> nor empty), in their stored order, and omits the project when no
  item is left. It prints the tables of the projects kept, one after the other, up to
  the first one that cannot be shown: one holding a kept item whose title is not a
  string, or one that rich refuses to render. At such a table the call is left by the
  exception; when there is none, all tables are printed and the call returns.
\<close>

theorem list_items_truthy_filters:
  "list_items renders st project_name pf sf ef stf =
     (case shown_projects st project_name of
        None \<Rightarrow> NotFound
      | Some ps \<Rightarrow>
          (if list_all (table_shows renders) (matching_tables pf sf ef stf ps)
           then Printed (matching_tables pf sf ef stf ps)
           else Raised (takeWhile (table_shows renders) (matching_tables pf sf ef stf ps))))"
proof -
  have t: "listing_of (tables renders pf sf ef stf ps) =
      (if list_all (table_shows renders) (matching_tables pf sf ef stf ps)
       then Printed (matching_tables pf sf ef stf ps)
       else Raised (takeWhile (table_shows renders) (matching_tables pf sf ef stf ps)))" for ps
    by (simp add: tables_matching listing_of_def list_all_iff)
  show ?thesis
  proof (cases project_name)
    case None
    then show ?thesis by (simp add: list_items_def shown_projects_def t)
  next
    case (Some name)
    show ?thesis
    proof (cases "name = []")
      case True
      with Some show ?thesis by (simp add: list_items_def shown_projects_def t)
    next
      case False
      with Some show ?thesis
        by (cases "map_of (projects st) name")
          (simp_all add: list_items_def shown_projects_def t del: tables.simps)
    qed
  qed
qed

text \<open>
  The example of the specification: priority \<open>high\<close> and status \<open>todo\<close> over all
  projects keep the one item matching both, and leave the second project out. And a
  listing of three projects whose second holds a title that is a number: the first
  table is printed, then the call is left by the exception.
\<close>

theorem list_items_truthy_filters_witness:
  "list_items renders_all two_project_store None (PStr ''high'') PNone PNone (PStr ''todo'')
     = Printed [(''web'', [(example_item ''WEB-1'' ''a'')\<lparr>priority := PStr ''high''\<rparr>])]
   \<and> list_items renders_all untitled_store None PNone PNone PNone (PStr ''todo'')
     = Raised [(''web'', [example_item ''WEB-1'' ''a''])]"
proof -
  have a: "list_items renders_all two_project_store None (PStr ''high'') PNone PNone
      (PStr ''todo'')
     = Printed [(''web'', [(example_item ''WEB-1'' ''a'')\<lparr>priority := PStr ''high''\<rparr>])]"
    using list_items_truthy_filters[of renders_all two_project_store None "PStr ''high''"
        PNone PNone "PStr ''todo''"]
    by (simp add: shown_projects_def two_project_store_def passes_def example_item_def
        matching_tables_def table_shows_def row_builds_def renders_all_def)
  have b: "list_items renders_all untitled_store None PNone PNone PNone (PStr ''todo'')
     = Raised [(''web'', [example_item ''WEB-1'' ''a''])]"
    using list_items_truthy_filters[of renders_all untitled_store None PNone PNone PNone
        "PStr ''todo''"]
    by (simp add: shown_projects_def untitled_store_def passes_def example_item_def
        matching_tables_def table_shows_def row_builds_def renders_all_def)
  from a b show ?thesis by (rule conjI)
qed

lemma apply_filters_blank:
  "apply_filters (PStr '''') sf ef stf items = apply_filters PNone sf ef stf items"
  "apply_filters pf (PStr '''') ef stf items = apply_filters pf PNone ef stf items"
  "apply_filters pf sf (PStr '''') stf items = apply_filters pf sf PNone stf items"
  "apply_filters pf sf ef (PStr '''') items = apply_filters pf sf ef PNone items"
  by (simp_all add: apply_filters_def)

lemma tables_blank:
  "tables renders (PStr '''') sf ef stf ps = tables renders PNone sf ef stf ps"
  "tables renders pf (PStr '''') ef stf ps = tables renders pf PNone ef stf ps"
  "tables renders pf sf (PStr '''') stf ps = tables renders pf sf PNone stf ps"
  "tables renders pf sf ef (PStr '''') ps = tables renders pf sf ef PNone ps"
  by (induction ps) (auto simp: apply_filters_blank)

text \<open>
  C10. An empty-string value for the priority, sprint, epic or status filter gives the
  same listing as leaving that filter out, for every manager (so also for items whose
  field is the empty string or \<open>None\<close>), every project selection and every value of
  the other filters.
\<close>

theorem empty_filter_is_no_filter:
  "list_items renders st project_name (PStr '''') sf ef stf
     = list_items renders st project_name PNone sf ef stf
 \<and> list_items renders st project_name pf (PStr '''') ef stf
     = list_items renders st project_name pf PNone ef stf
 \<and> list_items renders st project_name pf sf (PStr '''') stf
     = list_items renders st project_name pf sf PNone stf
 \<and> list_items renders st project_name pf sf ef (PStr '''')
     = list_items renders st project_name pf sf ef PNone"
  by (simp add: list_items_def tables_blank del: tables.simps split: option.splits)

theorem empty_filter_is_no_filter_witness:
  "list_items renders_all gap_store (Some ''p'') (PStr '''') PNone PNone PNone
     = list_items renders_all gap_store (Some ''p'') PNone PNone PNone PNone
   \<and> list_items renders_all gap_store None PNone (PStr '''') PNone (PStr ''todo'')
     = Printed [(''p'', [example_item ''P-1'' ''a'', example_item ''P-3'' ''c''])]"
proof -
  have a: "list_items renders_all gap_store None PNone PNone PNone (PStr ''todo'')
     = Printed [(''p'', [example_item ''P-1'' ''a'', example_item ''P-3'' ''c''])]"
    by (simp add: list_items_def gap_store_def apply_filters_def example_item_def
        listing_of_def row_builds_def renders_all_def)
  from empty_filter_is_no_filter[where renders = renders_all and st = gap_store
        and project_name = "Some ''p''"
        and pf = PNone and sf = PNone and ef = PNone and stf = PNone]
    empty_filter_is_no_filter[where renders = renders_all and st = gap_store
        and project_name = None
        and pf = PNone and sf = PNone and ef = PNone and stf = "PStr ''todo''"] a
  show ?thesis by simp
qed


section \<open>Updating an item\<close>

lemma getattr_setattr:
  "k \<in> set field_names \<Longrightarrow>
   getattr_item k (setattr_item key v item) = (if key = k then v else getattr_item k item)"
  by (auto simp: field_names_def getattr_item_def setattr_item_def asdict_def kw_def)

lemma apply_kwargs_getattr:
  "apply_kwargs inherited kwargs item = Inr item' \<Longrightarrow> k \<in> set field_names \<Longrightarrow>
   getattr_item k item' =
     (case requested kwargs k of Some v \<Rightarrow> v | None \<Rightarrow> getattr_item k item)"
proof (induction kwargs arbitrary: item)
  case Nil
  then show ?case by simp
next
  case (Cons e kwargs)
  obtain key v where e: "e = (key, v)" by (cases e)
  show ?case
  proof (cases "hasattr_item inherited key \<and> v \<noteq> PNone")
    case True
    with Cons.prems(1) have f: "key \<in> set field_names"
      and a: "apply_kwargs inherited kwargs (setattr_item key v item) = Inr item'"
      unfolding e by (auto split: if_splits)
    from Cons.IH[OF a Cons.prems(2)] True show ?thesis unfolding e
      by (cases "requested kwargs k") (simp_all add: getattr_setattr[OF Cons.prems(2)])
  next
    case False
    with Cons.prems(1) have a: "apply_kwargs inherited kwargs item = Inr item'"
      unfolding e by (auto split: if_splits)
    from False Cons.prems(2) have "\<not> (key = k \<and> v \<noteq> PNone)"
      by (auto simp: hasattr_item_def)
    with Cons.IH[OF a Cons.prems(2)] show ?thesis unfolding e
      by (cases "requested kwargs k") auto
  qed
qed

lemma apply_kwargs_known_only:
  "apply_kwargs inherited kwargs item = Inr item' \<Longrightarrow>
   apply_kwargs inherited
     (filter (\<lambda>(key, v). key \<in> set field_names \<and> v \<noteq> PNone) kwargs) item = Inr item'"
proof (induction kwargs arbitrary: item)
  case Nil
  then show ?case by simp
next
  case (Cons e kwargs)
  obtain key v where e: "e = (key, v)" by (cases e)
  show ?case
  proof (cases "key \<in> set field_names \<and> v \<noteq> PNone")
    case True
    with Cons.prems have "apply_kwargs inherited kwargs (setattr_item key v item) = Inr item'"
      unfolding e by (simp add: hasattr_item_def)
    from Cons.IH[OF this] True show ?thesis unfolding e by (simp add: hasattr_item_def)
  next
    case False
    with Cons.prems have "apply_kwargs inherited kwargs item = Inr item'"
      unfolding e by (auto simp: hasattr_item_def split: if_splits)
    from Cons.IH[OF this] False show ?thesis unfolding e by auto
  qed
qed

lemma apply_kwargs_total:
  "list_all (\<lambda>(key, v). v = PNone \<or> key \<in> set field_names \<or> \<not> inherited key) kwargs \<Longrightarrow>
   \<exists>item'. apply_kwargs inherited kwargs item = Inr item'"
proof (induction kwargs arbitrary: item)
  case Nil
  show ?case by simp
next
  case (Cons e kwargs)
  obtain key v where e: "e = (key, v)" by (cases e)
  from Cons.prems have h: "v = PNone \<or> key \<in> set field_names \<or> \<not> inherited key"
    and r: "list_all (\<lambda>(key, v). v = PNone \<or> key \<in> set field_names \<or> \<not> inherited key) kwargs"
    unfolding e by simp_all
  from h Cons.IH[OF r, of item] Cons.IH[OF r, of "setattr_item key v item"]
  show ?case unfolding e by (auto simp: hasattr_item_def)
qed

lemma apply_kwargs_beyond:
  "apply_kwargs inherited kwargs item = Inl (InheritedAttribute key) \<Longrightarrow>
   (\<exists>v. (key, v) \<in> set kwargs \<and> v \<noteq> PNone) \<and> inherited key \<and> key \<notin> set field_names"
proof (induction kwargs arbitrary: item)
  case Nil
  then show ?case by simp
next
  case (Cons e kwargs)
  obtain k v where e: "e = (k, v)" by (cases e)
  show ?case
  proof (cases "hasattr_item inherited k \<and> v \<noteq> PNone")
    case True
    show ?thesis
    proof (cases "k \<in> set field_names")
      case f: True
      with True Cons.prems
      have "apply_kwargs inherited kwargs (setattr_item k v item) = Inl (InheritedAttribute key)"
        unfolding e by simp
      from Cons.IH[OF this] show ?thesis unfolding e by auto
    next
      case f: False
      with True Cons.prems have "k = key" unfolding e by simp
      with True f show ?thesis unfolding e by (auto simp: hasattr_item_def)
    qed
  next
    case False
    with Cons.prems have "apply_kwargs inherited kwargs item = Inl (InheritedAttribute key)"
      unfolding e by (auto split: if_splits)
    from Cons.IH[OF this] show ?thesis unfolding e by auto
  qed
qed

lemma update_first_absent:
  "iid \<notin> set (map item_id items) \<Longrightarrow> update_first iid f items = Inr None"
  by (induction items) auto

lemma update_first_found:
  "iid \<notin> set (map item_id pre) \<Longrightarrow> item_id item = iid \<Longrightarrow>
   update_first iid f (pre @ item # post) =
     (case f item of Inl e \<Rightarrow> Inl e | Inr item' \<Rightarrow> Inr (Some (pre @ item' # post)))"
  by (induction pre) (auto split: sum.splits)

lemma update_item_absent:
  "map_of (projects st) project_name = None \<Longrightarrow>
   update_item inherited clk st project_name iid kwargs = Inr (False, st)"
  "map_of (projects st) project_name = Some items \<Longrightarrow> iid \<notin> set (map item_id items) \<Longrightarrow>
   update_item inherited clk st project_name iid kwargs = Inr (False, st)"
  by (simp_all add: update_item_def update_first_absent)

lemma update_item_found:
  assumes "map_of (projects st) project_name = Some (pre @ item # post)"
    and "iid \<notin> set (map item_id pre)" and "item_id item = iid"
  shows "update_item inherited clk st project_name iid kwargs =
     (case apply_kwargs inherited kwargs item of
        Inl e \<Rightarrow> Inl e
      | Inr item' \<Rightarrow>
          Inr (True, save_project
                 (st\<lparr>projects := AList.update project_name
                        (pre @ item'\<lparr>updated_at := PStr (clk (ticks st))\<rparr> # post) (projects st),
                     ticks := ticks st + 1\<rparr>)
                 project_name))"
  using assms(1)
  by (simp add: update_item_def update_first_found[OF assms(2,3)] split: sum.splits)

lemma first_match_split:
  "iid \<in> set (map item_id (items :: BacklogItem list)) \<Longrightarrow>
   \<exists>pre item post. items = pre @ item # post \<and> item_id item = iid
     \<and> iid \<notin> set (map item_id pre)"
  using delete_first_split[of iid items] by blast

lemma update_item_success:
  assumes "update_item inherited clk st project_name iid kwargs = Inr (True, st')"
  shows "\<exists>pre item post item'.
       map_of (projects st) project_name = Some (pre @ item # post)
     \<and> item_id item = iid \<and> iid \<notin> set (map item_id pre)
     \<and> apply_kwargs inherited kwargs item = Inr item'
     \<and> st' = save_project
          (st\<lparr>projects := AList.update project_name
                 (pre @ item'\<lparr>updated_at := PStr (clk (ticks st))\<rparr> # post) (projects st),
              ticks := ticks st + 1\<rparr>)
          project_name"
proof (cases "map_of (projects st) project_name")
  case None
  with assms update_item_absent(1)[OF None] show ?thesis by simp
next
  case (Some items)
  show ?thesis
  proof (cases "iid \<in> set (map item_id items)")
    case False
    with assms update_item_absent(2)[OF Some False] show ?thesis by simp
  next
    case True
    from first_match_split[OF True] obtain pre item post where
      s: "items = pre @ item # post" "item_id item = iid" "iid \<notin> set (map item_id pre)"
      by blast
    from Some s(1) have m: "map_of (projects st) project_name = Some (pre @ item # post)"
      by simp
    show ?thesis
    proof (cases "apply_kwargs inherited kwargs item")
      case (Inl e)
      with assms update_item_found[OF m s(3) s(2), of inherited clk kwargs]
      show ?thesis by simp
    next
      case (Inr item')
      with assms update_item_found[OF m s(3) s(2), of inherited clk kwargs]
      have "st' = save_project
          (st\<lparr>projects := AList.update project_name
                 (pre @ item'\<lparr>updated_at := PStr (clk (ticks st))\<rparr> # post) (projects st),
              ticks := ticks st + 1\<rparr>)
          project_name" by simp
      with m s(2,3) Inr show ?thesis by blast
    qed
  qed
qed

lemma update_item_beyond:
  assumes "update_item inherited clk st project_name iid kwargs = Inl (InheritedAttribute key)"
  shows "(\<exists>v. (key, v) \<in> set kwargs \<and> v \<noteq> PNone) \<and> inherited key \<and> key \<notin> set field_names"
proof (cases "map_of (projects st) project_name")
  case None
  with assms update_item_absent(1)[OF None] show ?thesis by simp
next
  case (Some items)
  show ?thesis
  proof (cases "iid \<in> set (map item_id items)")
    case False
    with assms update_item_absent(2)[OF Some False] show ?thesis by simp
  next
    case True
    from first_match_split[OF True] obtain pre item post where
      s: "items = pre @ item # post" "item_id item = iid" "iid \<notin> set (map item_id pre)"
      by blast
    from Some s(1) have m: "map_of (projects st) project_name = Some (pre @ item # post)"
      by simp
    from assms update_item_found[OF m s(3) s(2), of inherited clk kwargs]
    have "apply_kwargs inherited kwargs item = Inl (InheritedAttribute key)"
      by (cases "apply_kwargs inherited kwargs item") simp_all
    then show ?thesis by (rule apply_kwargs_beyond)
  qed
qed

lemma update_item_total:
  assumes "list_all (\<lambda>(key, v). v = PNone \<or> key \<in> set field_names \<or> \<not> inherited key) kwargs"
  shows "\<exists>r. update_item inherited clk st project_name iid kwargs = Inr r"
proof (cases "update_item inherited clk st project_name iid kwargs")
  case (Inr r)
  then show ?thesis by blast
next
  case (Inl e)
  obtain key where e: "e = InheritedAttribute key" by (cases e)
  from update_item_beyond[OF Inl[unfolded e]] obtain v where
    "(key, v) \<in> set kwargs" "v \<noteq> PNone" "inherited key" "key \<notin> set field_names" by blast
  with assms show ?thesis by (auto simp: list_all_iff)
qed

lemma apply_kwargs_reaches:
  "\<not> list_all (\<lambda>(key, v). v = PNone \<or> key \<in> set field_names \<or> \<not> inherited key) kwargs \<Longrightarrow>
   \<exists>key. apply_kwargs inherited kwargs item = Inl (InheritedAttribute key)"
proof (induction kwargs arbitrary: item)
  case Nil
  then show ?case by simp
next
  case (Cons e kwargs)
  obtain k v where e: "e = (k, v)" by (cases e)
  show ?case
  proof (cases "v = PNone \<or> k \<in> set field_names \<or> \<not> inherited k")
    case True
    with Cons.prems
    have r: "\<not> list_all (\<lambda>(key, v). v = PNone \<or> key \<in> set field_names \<or> \<not> inherited key) kwargs"
      unfolding e by simp
    from True Cons.IH[OF r, of item] Cons.IH[OF r, of "setattr_item k v item"]
    show ?thesis unfolding e by (auto simp: hasattr_item_def)
  next
    case False
    then show ?thesis unfolding e by (simp add: hasattr_item_def)
  qed
qed

lemma update_item_reaches:
  assumes "map_of (projects st) project_name = Some items"
    and "iid \<in> set (map item_id items)"
    and "\<not> list_all (\<lambda>(key, v). v = PNone \<or> key \<in> set field_names \<or> \<not> inherited key) kwargs"
  shows "\<exists>key. update_item inherited clk st project_name iid kwargs = Inl (InheritedAttribute key)"
proof -
  from first_match_split[OF assms(2)] obtain pre item post where
    s: "items = pre @ item # post" "item_id item = iid" "iid \<notin> set (map item_id pre)"
    by blast
  from assms(1) s(1) have m: "map_of (projects st) project_name = Some (pre @ item # post)"
    by simp
  from apply_kwargs_reaches[OF assms(3), of item] obtain key where
    "apply_kwargs inherited kwargs item = Inl (InheritedAttribute key)" by blast
  with update_item_found[OF m s(3) s(2), of inherited clk kwargs]
  have "update_item inherited clk st project_name iid kwargs = Inl (InheritedAttribute key)"
    by simp
  then show ?thesis by blast
qed

text \<open>
  C6, as stated, fails: \<open>created_at\<close> is a field like the others, so a request that
  names it replaces it.
\<close>

theorem update_item_created_at_counterexample:
  "map_option (map created_at) (map_of (projects gap_store) ''p'')
       = Some [PStr ''T0'', PStr ''T0'']
   \<and> update_item example_inherited example_clock gap_store ''p'' (PStr ''P-1'')
        [(''created_at'', PStr ''1999'')]
       = Inr (True, backdated_store)
   \<and> map_option (map created_at) (map_of (projects backdated_store) ''p'')
       = Some [PStr ''1999'', PStr ''T0'']"
  by (simp add: update_item_def gap_store_def example_item_def hasattr_item_def field_names_def
      setattr_item_def save_project_def backdated_store_def example_clock_def str_nat.simps
      digit_char_def)

text \<open>
  C6, amended. A successful \<open>update_item\<close> rewrites the first item carrying the
  identifier, in place: every field other than \<open>updated_at\<close> takes the non-null value
  the request gives it and otherwise keeps its value; \<open>created_at\<close> keeps its value
  unless the request names it with a non-null value; \<open>updated_at\<close> becomes the clock
  reading of the call, whatever the request says; entries whose value is null, or whose
  name is no attribute of the item, change nothing; the other items, the other
  projects and their documents are untouched, and the project's document is rewritten
  from the new list. A request in which every non-null entry names a field or a name
  that is no attribute of the item is always carried out in this way. A name outside
  the field set that the item inherits from its class is not ignored: when the item is
  found and the request gives such a name a non-null value, \<open>setattr\<close> is called with
  it, and only then.
\<close>

theorem update_item_frame:
  "(update_item inherited clk st project_name iid kwargs = Inr (True, st') \<longrightarrow>
      (\<exists>pre item item' post.
         map_of (projects st) project_name = Some (pre @ item # post)
       \<and> item_id item = iid \<and> iid \<notin> set (map item_id pre)
       \<and> map_of (projects st') project_name = Some (pre @ item' # post)
       \<and> map_of (files st') project_name = Some (Records (map asdict (pre @ item' # post)))
       \<and> updated_at item' = PStr (clk (ticks st))
       \<and> (\<forall>k \<in> set field_names. k \<noteq> ''updated_at'' \<longrightarrow>
             getattr_item k item' =
               (case requested kwargs k of Some v \<Rightarrow> v | None \<Rightarrow> getattr_item k item))
       \<and> (requested kwargs ''created_at'' = None \<longrightarrow> created_at item' = created_at item)
       \<and> (\<forall>q. q \<noteq> project_name \<longrightarrow> map_of (projects st') q = map_of (projects st) q
             \<and> map_of (files st') q = map_of (files st) q)
       \<and> update_item inherited clk st project_name iid
            (filter (\<lambda>(key, v). key \<in> set field_names \<and> v \<noteq> PNone) kwargs)
           = Inr (True, st')))
   \<and> (list_all (\<lambda>(key, v). v = PNone \<or> key \<in> set field_names \<or> \<not> inherited key) kwargs \<longrightarrow>
        (\<exists>r. update_item inherited clk st project_name iid kwargs = Inr r))
   \<and> (update_item inherited clk st project_name iid kwargs = Inl (InheritedAttribute key) \<longrightarrow>
        (\<exists>v. (key, v) \<in> set kwargs \<and> v \<noteq> PNone) \<and> inherited key \<and> key \<notin> set field_names)
   \<and> (map_of (projects st) project_name = Some items \<and> iid \<in> set (map item_id items)
        \<and> \<not> list_all (\<lambda>(key, v). v = PNone \<or> key \<in> set field_names \<or> \<not> inherited key) kwargs \<longrightarrow>
        (\<exists>k. update_item inherited clk st project_name iid kwargs = Inl (InheritedAttribute k)))"
proof (intro conjI impI)
  assume u: "update_item inherited clk st project_name iid kwargs = Inr (True, st')"
  from update_item_success[OF u] obtain pre item post item0 where
    m: "map_of (projects st) project_name = Some (pre @ item # post)"
    and i: "item_id item = iid" "iid \<notin> set (map item_id pre)"
    and a: "apply_kwargs inherited kwargs item = Inr item0"
    and s: "st' = save_project
          (st\<lparr>projects := AList.update project_name
                 (pre @ item0\<lparr>updated_at := PStr (clk (ticks st))\<rparr> # post) (projects st),
              ticks := ticks st + 1\<rparr>)
          project_name" by blast
  let ?item' = "item0\<lparr>updated_at := PStr (clk (ticks st))\<rparr>"
  have p: "map_of (projects st') project_name = Some (pre @ ?item' # post)"
    unfolding s by (simp add: save_project_def update_conv')
  have fl: "map_of (files st') project_name = Some (Records (map asdict (pre @ ?item' # post)))"
    unfolding s by (simp add: save_project_def update_conv')
  have up: "updated_at ?item' = PStr (clk (ticks st))" by simp
  have g: "getattr_item k ?item' =
      (case requested kwargs k of Some v \<Rightarrow> v | None \<Rightarrow> getattr_item k item)"
    if "k \<in> set field_names" "k \<noteq> ''updated_at''" for k
  proof -
    have "getattr_item k ?item' = getattr_item k item0"
      using that by (auto simp: field_names_def getattr_item_def asdict_def kw_def)
    with apply_kwargs_getattr[OF a that(1)] show ?thesis by simp
  qed
  have c: "created_at ?item' = created_at item" if "requested kwargs ''created_at'' = None"
    using g[of "''created_at''"] that
    by (simp add: field_names_def getattr_item_def asdict_def kw_def)
  have o: "map_of (projects st') q = map_of (projects st) q
      \<and> map_of (files st') q = map_of (files st) q" if "q \<noteq> project_name" for q
    using that unfolding s by (simp add: save_project_def update_conv')
  have k: "update_item inherited clk st project_name iid
      (filter (\<lambda>(key, v). key \<in> set field_names \<and> v \<noteq> PNone) kwargs) = Inr (True, st')"
    unfolding update_item_found[OF m i(2) i(1)] apply_kwargs_known_only[OF a] s by simp
  show "\<exists>pre item item' post.
         map_of (projects st) project_name = Some (pre @ item # post)
       \<and> item_id item = iid \<and> iid \<notin> set (map item_id pre)
       \<and> map_of (projects st') project_name = Some (pre @ item' # post)
       \<and> map_of (files st') project_name = Some (Records (map asdict (pre @ item' # post)))
       \<and> updated_at item' = PStr (clk (ticks st))
       \<and> (\<forall>k \<in> set field_names. k \<noteq> ''updated_at'' \<longrightarrow>
             getattr_item k item' =
               (case requested kwargs k of Some v \<Rightarrow> v | None \<Rightarrow> getattr_item k item))
       \<and> (requested kwargs ''created_at'' = None \<longrightarrow> created_at item' = created_at item)
       \<and> (\<forall>q. q \<noteq> project_name \<longrightarrow> map_of (projects st') q = map_of (projects st) q
             \<and> map_of (files st') q = map_of (files st) q)
       \<and> update_item inherited clk st project_name iid
            (filter (\<lambda>(key, v). key \<in> set field_names \<and> v \<noteq> PNone) kwargs)
           = Inr (True, st')"
    apply (rule exI[of _ pre], rule exI[of _ item], rule exI[of _ ?item'], rule exI[of _ post])
    using m i p fl up g c o k by (intro conjI ballI impI allI) simp_all
next
  assume "list_all (\<lambda>(key, v). v = PNone \<or> key \<in> set field_names \<or> \<not> inherited key) kwargs"
  then show "\<exists>r. update_item inherited clk st project_name iid kwargs = Inr r"
    by (rule update_item_total)
next
  assume b: "update_item inherited clk st project_name iid kwargs = Inl (InheritedAttribute key)"
  from update_item_beyond[OF b]
  show "\<exists>v. (key, v) \<in> set kwargs \<and> v \<noteq> PNone" "inherited key" "key \<notin> set field_names"
    by blast+
next
  assume "map_of (projects st) project_name = Some items \<and> iid \<in> set (map item_id items)
        \<and> \<not> list_all (\<lambda>(key, v). v = PNone \<or> key \<in> set field_names \<or> \<not> inherited key) kwargs"
  then show "\<exists>k. update_item inherited clk st project_name iid kwargs = Inl (InheritedAttribute k)"
    using update_item_reaches by blast
qed

lemma example_update_val:
  "update_item example_inherited example_clock gap_store ''p'' (PStr ''P-3'') example_request =
     Inr (True,
      \<lparr>projects = [(''p'', [example_item ''P-1'' ''a'',
           (example_item ''P-3'' ''c'')\<lparr>status := PStr ''done'', updated_at := PStr ''T1''\<rparr>])],
       files = [(''p'', Records [asdict (example_item ''P-1'' ''a''),
           asdict ((example_item ''P-3'' ''c'')\<lparr>status := PStr ''done'',
              updated_at := PStr ''T1''\<rparr>)])],
       ticks = 1\<rparr>)"
  by (simp add: update_item_def gap_store_def example_item_def hasattr_item_def field_names_def
      setattr_item_def save_project_def example_request_def example_clock_def str_nat.simps
      digit_char_def example_inherited_def)

lemma example_doc_update_val:
  "update_item example_inherited example_clock gap_store ''p'' (PStr ''P-3'')
     [(''status'', PStr ''done''), (''__doc__'', PStr ''x'')]
   = Inl (InheritedAttribute ''__doc__'')"
  by (simp add: update_item_def gap_store_def example_item_def hasattr_item_def field_names_def
      setattr_item_def example_inherited_def)

text \<open>
  A request with a known field, a name that is no attribute (\<open>points\<close>) and a null
  value is carried out, and equals the request reduced to its one effective entry. A
  request that gives \<open>__doc__\<close> a value reaches \<open>setattr\<close> with that name.
\<close>

theorem update_item_frame_witness:
  "update_item example_inherited example_clock gap_store ''p'' (PStr ''P-3'') example_request =
     Inr (True,
      \<lparr>projects = [(''p'', [example_item ''P-1'' ''a'',
           (example_item ''P-3'' ''c'')\<lparr>status := PStr ''done'', updated_at := PStr ''T1''\<rparr>])],
       files = [(''p'', Records [asdict (example_item ''P-1'' ''a''),
           asdict ((example_item ''P-3'' ''c'')\<lparr>status := PStr ''done'',
              updated_at := PStr ''T1''\<rparr>)])],
       ticks = 1\<rparr>)
   \<and> update_item example_inherited example_clock gap_store ''p'' (PStr ''P-3'')
        (filter (\<lambda>(key, v). key \<in> set field_names \<and> v \<noteq> PNone) example_request) =
     Inr (True,
      \<lparr>projects = [(''p'', [example_item ''P-1'' ''a'',
           (example_item ''P-3'' ''c'')\<lparr>status := PStr ''done'', updated_at := PStr ''T1''\<rparr>])],
       files = [(''p'', Records [asdict (example_item ''P-1'' ''a''),
           asdict ((example_item ''P-3'' ''c'')\<lparr>status := PStr ''done'',
              updated_at := PStr ''T1''\<rparr>)])],
       ticks = 1\<rparr>)
   \<and> list_all (\<lambda>(key, v). v = PNone \<or> key \<in> set field_names \<or> \<not> example_inherited key)
        example_request
   \<and> update_item example_inherited example_clock gap_store ''p'' (PStr ''P-3'')
        [(''status'', PStr ''done''), (''__doc__'', PStr ''x'')]
       = Inl (InheritedAttribute ''__doc__'')
   \<and> example_inherited ''__doc__'' \<and> ''__doc__'' \<notin> set field_names"
proof -
  note h = example_update_val
  note t = update_item_frame[where inherited = example_inherited and clk = example_clock
      and st = gap_store and project_name = "''p''" and iid = "PStr ''P-3''"]
  from t[where kwargs = example_request] h
  have a: "update_item example_inherited example_clock gap_store ''p'' (PStr ''P-3'')
        (filter (\<lambda>(key, v). key \<in> set field_names \<and> v \<noteq> PNone) example_request) =
     Inr (True,
      \<lparr>projects = [(''p'', [example_item ''P-1'' ''a'',
           (example_item ''P-3'' ''c'')\<lparr>status := PStr ''done'', updated_at := PStr ''T1''\<rparr>])],
       files = [(''p'', Records [asdict (example_item ''P-1'' ''a''),
           asdict ((example_item ''P-3'' ''c'')\<lparr>status := PStr ''done'',
              updated_at := PStr ''T1''\<rparr>)])],
       ticks = 1\<rparr>)"
    by blast
  have b: "list_all (\<lambda>(key, v). v = PNone \<or> key \<in> set field_names \<or> \<not> example_inherited key)
        example_request"
    by (simp add: example_request_def field_names_def example_inherited_def)
  note d = example_doc_update_val
  from t[where kwargs = "[(''status'', PStr ''done''), (''__doc__'', PStr ''x'')]"
      and key = "''__doc__''"] d
  have c: "example_inherited ''__doc__''" "''__doc__'' \<notin> set field_names" by blast+
  from h a b d c show ?thesis by (intro conjI)
qed


section \<open>Adding an item\<close>

lemma generate_item_id_fresh:
  assumes "map_of (projects st) project_name = Some items"
  shows "PStr (generate_item_id st project_name) \<notin> set (map item_id items)"
    and "k \<le> length items \<Longrightarrow>
      generate_item_id st project_name \<noteq> upper project_name @ ''-'' @ str_nat k"
proof -
  let ?ids = "map item_id items"
  let ?c = "id_scan (upper project_name) ?ids (length ?ids + 1)"
  have g: "generate_item_id st project_name = upper project_name @ ''-'' @ str_nat ?c"
    using assms by (simp add: generate_item_id_def)
  from id_scan_result[of "length ?ids + 1" "upper project_name" ?ids]
  have a: "length items + 1 \<le> ?c"
    and b: "PStr (upper project_name @ ''-'' @ str_nat ?c) \<notin> set ?ids" by simp_all
  from b g show "PStr (generate_item_id st project_name) \<notin> set (map item_id items)" by simp
  show "generate_item_id st project_name \<noteq> upper project_name @ ''-'' @ str_nat k"
    if "k \<le> length items"
  proof
    assume "generate_item_id st project_name = upper project_name @ ''-'' @ str_nat k"
    with g have "str_nat ?c = str_nat k" by simp
    then have "?c = k" by (rule str_nat_inj)
    with a that show False by simp
  qed
qed

lemma post_init_id: "item_id (fst (post_init clk item t)) = item_id item"
  by (simp add: post_init_def)

lemma add_item_result:
  assumes "map_of (projects st) project_name = Some items"
  shows "add_item clk st project_name t d p s e a sp =
     (True, save_project
        (st\<lparr>projects := AList.update project_name
               (items @ [new_item clk st project_name t d p s e a sp]) (projects st),
            ticks := ticks st + 2\<rparr>) project_name)"
  using assms by (simp add: add_item_def post_init_def new_item_def)




text \<open>
  C3, as stated, fails: after \<open>create_project\<close>, \<open>add_item\<close> (which assigns \<open>P-1\<close>)
  and the confirmed deletion of \<open>P-1\<close>, the next \<open>add_item\<close> assigns \<open>P-1\<close> again.
\<close>

theorem identifier_reuse_counterexample:
  "map_option (map item_id) (map_of (projects demo_s2) ''p'') = Some [PStr ''P-1'']
   \<and> map_option (map item_id)
        (map_of (projects (snd (delete_item demo_s2 ''p'' (PStr ''P-1'') True))) ''p'') = Some []
   \<and> map_option (map item_id)
        (map_of (projects (snd (add_item example_clock
            (snd (delete_item demo_s2 ''p'' (PStr ''P-1'') True)) ''p''
            (PStr ''Logout'') (PStr ''End session'') (PStr ''low'') PNone PNone PNone PNone)))
          ''p'')
       = Some [PStr ''P-1'']"
  by (simp add: demo_s2_val delete_item_def add_item_def generate_item_id_def id_scan.simps
      str_nat.simps digit_char_def upper_def upper_char_def post_init_def save_project_def)

text \<open>
  C3, amended. Whatever operations led to the manager's state, \<open>add_item\<close> on an
  existing project appends an item whose identifier is carried by no current item and
  differs from \<open><NAME_UPPER>-k\<close> for every \<open>k\<close> up to the number of current items. An
  identifier of a deleted item can thus come back only once the project holds fewer
  items than the identifier's counter.
\<close>

theorem add_item_identifier_beyond_count:
  assumes "map_of (projects st) project_name = Some items"
  shows "\<exists>item. fst (add_item clk st project_name t d p s e a sp)
    \<and> map_of (projects (snd (add_item clk st project_name t d p s e a sp))) project_name
        = Some (items @ [item])
    \<and> item_id item = PStr (generate_item_id st project_name)
    \<and> item_id item \<notin> set (map item_id items)
    \<and> (\<forall>k. k \<le> length items \<longrightarrow>
          item_id item \<noteq> PStr (upper project_name @ ''-'' @ str_nat k))"
proof -
  let ?item = "new_item clk st project_name t d p s e a sp"
  have i: "item_id ?item = PStr (generate_item_id st project_name)"
    by (simp add: new_item_def)
  have "fst (add_item clk st project_name t d p s e a sp)"
    and "map_of (projects (snd (add_item clk st project_name t d p s e a sp))) project_name
        = Some (items @ [?item])"
    unfolding add_item_result[OF assms] by (simp_all add: save_project_def update_conv')
  moreover have "item_id ?item \<notin> set (map item_id items)"
    unfolding i by (rule generate_item_id_fresh(1)[OF assms])
  moreover have "\<forall>k. k \<le> length items \<longrightarrow>
      item_id ?item \<noteq> PStr (upper project_name @ ''-'' @ str_nat k)"
    unfolding i using generate_item_id_fresh(2)[OF assms] by simp
  ultimately show ?thesis using i by (intro exI[of _ ?item]) simp
qed

theorem add_item_identifier_beyond_count_witness:
  "map_of (projects gap_store) ''p''
     = Some [example_item ''P-1'' ''a'', example_item ''P-3'' ''c'']
   \<and> map_option (map item_id)
        (map_of (projects (snd (add_item example_clock gap_store ''p'' (PStr ''t'') (PStr ''d'')
           (PStr ''low'') PNone PNone PNone PNone))) ''p'')
       = Some [PStr ''P-1'', PStr ''P-3'', PStr ''P-4'']"
proof -
  have h: "map_of (projects gap_store) ''p''
      = Some [example_item ''P-1'' ''a'', example_item ''P-3'' ''c'']"
    by (simp add: gap_store_def)
  have g: "generate_item_id gap_store ''p'' = ''P-4''"
    by (simp add: generate_item_id_def gap_store_def example_item_def upper_def upper_char_def
        id_scan.simps str_nat.simps digit_char_def)
  from add_item_identifier_beyond_count[OF h, of example_clock "PStr ''t''" "PStr ''d''"
      "PStr ''low''" PNone PNone PNone PNone]
  obtain item where
    "map_of (projects (snd (add_item example_clock gap_store ''p'' (PStr ''t'') (PStr ''d'')
           (PStr ''low'') PNone PNone PNone PNone))) ''p''
      = Some ([example_item ''P-1'' ''a'', example_item ''P-3'' ''c''] @ [item])"
    and "item_id item = PStr (generate_item_id gap_store ''p'')" by blast
  with g have "map_option (map item_id)
        (map_of (projects (snd (add_item example_clock gap_store ''p'' (PStr ''t'') (PStr ''d'')
           (PStr ''low'') PNone PNone PNone PNone))) ''p'')
       = Some [PStr ''P-1'', PStr ''P-3'', PStr ''P-4'']"
    by (simp add: example_item_def)
  with h show ?thesis by (rule conjI)
qed


section \<open>Distinct identifiers\<close>

lemma list_all_map_of:
  "list_all P ps \<Longrightarrow> map_of ps k = Some v \<Longrightarrow> P (k, v)"
  by (auto simp: list_all_iff dest: map_of_SomeD)

lemma list_all_update:
  "list_all P ps \<Longrightarrow> P (k, v) \<Longrightarrow> list_all P (AList.update k v ps)"
  by (induction ps) auto

lemma list_all_delete:
  "list_all P ps \<Longrightarrow> list_all P (AList.delete k ps)"
  by (induction ps) auto

lemma ids_distinct_save [simp]: "ids_distinct (save_project st n) = ids_distinct st"
  by (simp add: ids_distinct_def save_project_def split: option.splits)

lemma ids_distinct_set_items:
  "ids_distinct st \<Longrightarrow> distinct (map item_id items) \<Longrightarrow>
   ids_distinct (st\<lparr>projects := AList.update n items (projects st)\<rparr>)"
  by (simp add: ids_distinct_def list_all_update)

lemma ids_distinct_lookup:
  "ids_distinct st \<Longrightarrow> map_of (projects st) n = Some items \<Longrightarrow> distinct (map item_id items)"
  using list_all_map_of[of "\<lambda>(n, items). distinct (map item_id items)" "projects st" n items]
  by (simp add: ids_distinct_def)

lemma ids_distinct_ticks [simp]: "ids_distinct (st\<lparr>ticks := t\<rparr>) = ids_distinct st"
  by (simp add: ids_distinct_def)

lemma item_id_apply_kwargs:
  "apply_kwargs inherited kwargs item = Inr item' \<Longrightarrow>
   item_id item' = (case requested kwargs ''id'' of Some v \<Rightarrow> v | None \<Rightarrow> item_id item)"
  using apply_kwargs_getattr[of inherited kwargs item item' "''id''"]
  by (simp add: field_names_def getattr_item_def asdict_def kw_def split: option.splits)

lemma demo_s3_val:
  "demo_s3 =
     \<lparr>projects = [(''p'', [login_item, logout_item])],
      files = [(''p'', Records [asdict login_item, asdict logout_item])],
      ticks = 4\<rparr>"
  by (simp add: demo_s3_def demo_s2_val add_item_def generate_item_id_def
      id_scan.simps str_nat.simps digit_char_def upper_def upper_char_def post_init_def
      save_project_def example_clock_def login_item_def logout_item_def asdict_def)

text \<open>
  C2, as stated, fails: \<open>id\<close> is a known field, and \<open>update_item\<close> stores any non-null
  value given for it. In the project holding \<open>P-1\<close> and \<open>P-2\<close>, updating \<open>P-1\<close> with
  \<open>id = P-2\<close> leaves two items called \<open>P-2\<close>.
\<close>

theorem update_item_duplicates_id_counterexample:
  "ids_distinct demo_s3
   \<and> map_option (map item_id) (map_of (projects demo_s3) ''p'')
       = Some [PStr ''P-1'', PStr ''P-2'']
   \<and> update_item example_inherited example_clock demo_s3 ''p'' (PStr ''P-1'')
        [(''id'', PStr ''P-2'')]
       = Inr (True, duplicate_store)
   \<and> map_option (map item_id) (map_of (projects duplicate_store) ''p'')
       = Some [PStr ''P-2'', PStr ''P-2'']
   \<and> \<not> ids_distinct duplicate_store"
  by (simp add: ids_distinct_def demo_s3_val login_item_def logout_item_def
      duplicate_store_def save_project_def update_item_def hasattr_item_def field_names_def
      setattr_item_def example_clock_def str_nat.simps digit_char_def)

text \<open>
  C2, amended. The identifiers within each project are pairwise distinct in a manager
  started on an empty directory, and stay so under \<open>create_project\<close>, \<open>add_item\<close>,
  \<open>delete_item\<close>, \<open>delete_project\<close>, and under \<open>update_item\<close> whenever the request
  does not set \<open>id\<close>, sets it to the identifier the item already has, or sets it to
  a value no item of the project carries. (Such an \<open>update_item\<close> returns, with the
  identifiers distinct, unless the request gives a non-null value to a name outside the
  field set that the item inherits from its class.)
\<close>

theorem item_ids_stay_distinct:
  "ids_distinct (BacklogManager_init clk [] t0)
   \<and> (ids_distinct st \<longrightarrow>
         ids_distinct (snd (create_project st name))
       \<and> ids_distinct (snd (add_item clk st project_name t d p s e a sp))
       \<and> ids_distinct (snd (delete_item st project_name iid confirm))
       \<and> ids_distinct (snd (delete_project st project_name confirm))
       \<and> ((case requested kwargs ''id'' of
              None \<Rightarrow> True
            | Some v \<Rightarrow> v = iid \<or> (\<forall>items. map_of (projects st) project_name = Some items
                                      \<longrightarrow> v \<notin> set (map item_id items)))
            \<longrightarrow> (case update_item inherited clk st project_name iid kwargs of
                   Inr r \<Rightarrow> ids_distinct (snd r)
                 | Inl e \<Rightarrow> \<not> list_all (\<lambda>(key, v). v = PNone \<or> key \<in> set field_names
                                             \<or> \<not> inherited key) kwargs)))"
proof -
  have base: "ids_distinct (BacklogManager_init clk [] t0)"
    by (simp add: BacklogManager_init_def load_projects_def ids_distinct_def)
  have cr: "ids_distinct (snd (create_project st name))" if inv: "ids_distinct st"
    using ids_distinct_set_items[OF inv, of "[]" name]
    by (simp add: create_project_def split: option.splits add: inv)
  have ad: "ids_distinct (snd (add_item clk st project_name t d p s e a sp))"
    if inv: "ids_distinct st"
  proof (cases "map_of (projects st) project_name")
    case None
    then show ?thesis using inv by (simp add: add_item_def)
  next
    case (Some items)
    let ?item = "new_item clk st project_name t d p s e a sp"
    have "item_id ?item \<notin> set (map item_id items)"
      using generate_item_id_fresh(1)[OF Some] by (simp add: new_item_def)
    with ids_distinct_lookup[OF inv Some]
    have "distinct (map item_id (items @ [?item]))" by simp
    from ids_distinct_set_items[OF inv this, of project_name]
    show ?thesis unfolding add_item_result[OF Some] by simp
  qed
  have de: "ids_distinct (snd (delete_item st project_name iid confirm))"
    if inv: "ids_distinct st"
  proof (cases "map_of (projects st) project_name")
    case None
    then show ?thesis using inv by (simp add: delete_item_def)
  next
    case (Some items)
    show ?thesis
    proof (cases "iid \<in> set (map item_id items)")
      case True
      from delete_first_split[OF True] obtain pre item post where
        sp: "items = pre @ item # post" and d: "delete_first iid items = Some (pre @ post)"
        by blast
      from ids_distinct_lookup[OF inv Some] sp have "distinct (map item_id (pre @ post))"
        by simp
      from ids_distinct_set_items[OF inv this, of project_name]
      show ?thesis using inv Some d by (simp add: delete_item_def)
    next
      case False
      then have "delete_first iid items = None"
        by (induction items) auto
      with Some inv show ?thesis by (simp add: delete_item_def)
    qed
  qed
  have dp: "ids_distinct (snd (delete_project st project_name confirm))"
    if inv: "ids_distinct st"
    using inv by (simp add: delete_project_def ids_distinct_def list_all_delete
        split: option.splits)
  have up: "case update_item inherited clk st project_name iid kwargs of
                   Inr r \<Rightarrow> ids_distinct (snd r)
                 | Inl e \<Rightarrow> \<not> list_all (\<lambda>(key, v). v = PNone \<or> key \<in> set field_names
                                             \<or> \<not> inherited key) kwargs"
    if inv: "ids_distinct st"
      and ok: "case requested kwargs ''id'' of
              None \<Rightarrow> True
            | Some v \<Rightarrow> v = iid \<or> (\<forall>items. map_of (projects st) project_name = Some items
                                      \<longrightarrow> v \<notin> set (map item_id items))"
  proof (cases "update_item inherited clk st project_name iid kwargs")
    case (Inl e)
    from update_item_total[of inherited kwargs clk st project_name iid] Inl
    have "\<not> list_all (\<lambda>(key, v). v = PNone \<or> key \<in> set field_names \<or> \<not> inherited key) kwargs"
      by auto
    with Inl show ?thesis by simp
  next
    case (Inr r)
    obtain ok' st' where r: "r = (ok', st')" by (cases r)
    have "ids_distinct st'"
    proof (cases ok')
      case False
      from Inr[unfolded r] False have "st' = st"
        by (auto simp: update_item_def split: option.splits sum.splits)
      with inv show ?thesis by simp
    next
      case True
      from Inr[unfolded r] True
      have "update_item inherited clk st project_name iid kwargs = Inr (True, st')" by simp
      from update_item_success[OF this] obtain pre item post item0 where
        m: "map_of (projects st) project_name = Some (pre @ item # post)"
        and i: "item_id item = iid"
        and a0: "apply_kwargs inherited kwargs item = Inr item0"
        and s: "st' = save_project
          (st\<lparr>projects := AList.update project_name
                 (pre @ item0\<lparr>updated_at := PStr (clk (ticks st))\<rparr> # post) (projects st),
              ticks := ticks st + 1\<rparr>)
          project_name" by blast
      let ?item' = "item0\<lparr>updated_at := PStr (clk (ticks st))\<rparr>"
      have d: "distinct (map item_id (pre @ item # post))"
        by (rule ids_distinct_lookup[OF inv m])
      have n: "item_id ?item' = iid \<or> item_id ?item' \<notin> set (map item_id (pre @ item # post))"
        using ok m i item_id_apply_kwargs[OF a0] by (auto split: option.splits)
      have a: "item_id item \<notin> set (map item_id pre)" "item_id item \<notin> set (map item_id post)"
        "distinct (map item_id pre)" "distinct (map item_id post)"
        "set (map item_id pre) \<inter> set (map item_id post) = {}"
        using d by auto
      have b: "item_id ?item' \<notin> set (map item_id pre) \<union> set (map item_id post)"
      proof (cases "item_id ?item' = iid")
        case True
        with a(1,2) i show ?thesis by simp
      next
        case False
        with n have "item_id ?item' \<notin> set (map item_id (pre @ item # post))" by simp
        then show ?thesis by simp
      qed
      have "distinct (map item_id (pre @ ?item' # post))"
        using a(3,4,5) b by simp
      from ids_distinct_set_items[OF inv this, of project_name]
      show ?thesis unfolding s by simp
    qed
    with Inr r show ?thesis by simp
  qed
  from base cr ad de dp up show ?thesis by (intro conjI impI) simp_all
qed

lemma example_id_update_val:
  "update_item example_inherited example_clock gap_store ''p'' (PStr ''P-1'')
        [(''id'', PStr ''P-2''), (''status'', PStr ''done'')]
   = Inr (True, renamed_store)"
  by (simp add: gap_store_def example_item_def renamed_store_def
      save_project_def update_item_def hasattr_item_def field_names_def setattr_item_def
      example_clock_def str_nat.simps digit_char_def)

theorem item_ids_stay_distinct_witness:
  "ids_distinct gap_store
   \<and> ids_distinct (BacklogManager_init example_clock [] 0)
   \<and> ids_distinct (snd (create_project gap_store ''q''))
   \<and> ids_distinct (snd (add_item example_clock gap_store ''p'' (PStr ''t'') (PStr ''d'')
        (PStr ''low'') PNone PNone PNone PNone))
   \<and> ids_distinct (snd (delete_item gap_store ''p'' (PStr ''P-1'') True))
   \<and> ids_distinct (snd (delete_project gap_store ''p'' True))
   \<and> update_item example_inherited example_clock gap_store ''p'' (PStr ''P-1'')
        [(''id'', PStr ''P-2''), (''status'', PStr ''done'')]
       = Inr (True, renamed_store)
   \<and> ids_distinct renamed_store"
proof -
  have h: "ids_distinct gap_store"
    by (simp add: ids_distinct_def gap_store_def example_item_def)
  have r: "case requested [(''id'', PStr ''P-2''), (''status'', PStr ''done'')] ''id'' of
       None \<Rightarrow> True
     | Some v \<Rightarrow> v = PStr ''P-1'' \<or> (\<forall>items. map_of (projects gap_store) ''p'' = Some items
                                      \<longrightarrow> v \<notin> set (map item_id items))"
    by (simp add: gap_store_def example_item_def)
  note u = example_id_update_val
  from item_ids_stay_distinct[of example_clock 0 gap_store "''q''" "''p''" "PStr ''t''"
      "PStr ''d''" "PStr ''low''" PNone PNone PNone PNone "PStr ''P-1''" True
      "[(''id'', PStr ''P-2''), (''status'', PStr ''done'')]" example_inherited] h r
  have "ids_distinct (BacklogManager_init example_clock [] 0)"
    and "ids_distinct (snd (create_project gap_store ''q''))"
    and "ids_distinct (snd (add_item example_clock gap_store ''p'' (PStr ''t'') (PStr ''d'')
        (PStr ''low'') PNone PNone PNone PNone))"
    and "ids_distinct (snd (delete_item gap_store ''p'' (PStr ''P-1'') True))"
    and "ids_distinct (snd (delete_project gap_store ''p'' True))"
    and "ids_distinct renamed_store"
    unfolding u by simp_all
  with h u show ?thesis by (intro conjI)
qed


section \<open>Saving and reloading\<close>

lemma BacklogItem_init_asdict:
  "BacklogItem_init clk (asdict item) t = Some (post_init clk item t)"
  by (cases item)
    (simp add: BacklogItem_init_def asdict_def kw_def field_names_def required_fields_def)

lemma load_items_asdict:
  "list_all (\<lambda>item. truthy (created_at item)) items \<Longrightarrow>
   load_items clk (map asdict items) t = (Some (restamped clk t items), t + length items)"
proof (induction items arbitrary: t)
  case Nil
  show ?case by simp
next
  case (Cons a items)
  then have "truthy (created_at a)" and r: "list_all (\<lambda>item. truthy (created_at item)) items"
    by simp_all
  then have "BacklogItem_init clk (asdict a) t = Some (a\<lparr>updated_at := PStr (clk t)\<rparr>, t + 1)"
    by (simp add: BacklogItem_init_asdict post_init_def)
  with Cons.IH[OF r, of "t + 1"] show ?case by simp
qed

lemma load_files_append:
  "load_files clk (l1 @ l2) st = load_files clk l2 (load_files clk l1 st)"
proof (induction l1 arbitrary: st)
  case Nil
  show ?case by simp
next
  case (Cons e l1)
  obtain n doc where e: "e = (n, doc)" by (cases e)
  show ?case unfolding e by (simp add: Cons.IH split: yaml_doc.splits option.splits prod.splits)
qed

lemma load_files_other:
  "p \<notin> fst ` set l \<Longrightarrow> map_of (projects (load_files clk l st)) p = map_of (projects st) p"
proof (induction l arbitrary: st)
  case Nil
  show ?case by simp
next
  case (Cons e l)
  obtain n doc where e: "e = (n, doc)" by (cases e)
  from Cons.prems have n: "n \<noteq> p" and r: "p \<notin> fst ` set l" unfolding e by auto
  show ?case unfolding e using n
    by (simp add: Cons.IH[OF r] update_conv' split: yaml_doc.splits option.splits prod.splits)
qed

lemma BacklogItem_init_ticks: "BacklogItem_init clk d t = Some (item, t') \<Longrightarrow> t \<le> t'"
  by (auto simp: BacklogItem_init_def post_init_def split: if_splits)

lemma load_items_ticks: "t \<le> snd (load_items clk ds t)"
proof (induction ds arbitrary: t)
  case Nil
  show ?case by simp
next
  case (Cons d ds)
  show ?case
  proof (cases "BacklogItem_init clk d t")
    case None
    then show ?thesis by simp
  next
    case (Some r)
    obtain item t' where r: "r = (item, t')" by (cases r)
    from Some r have "t \<le> t'" by (simp add: BacklogItem_init_ticks)
    moreover have "t' \<le> snd (load_items clk ds t')" by (rule Cons.IH)
    ultimately show ?thesis using Some r
      by (auto split: prod.splits option.splits)
  qed
qed

lemma load_files_ticks: "ticks st \<le> ticks (load_files clk l st)"
proof (induction l arbitrary: st)
  case Nil
  show ?case by simp
next
  case (Cons e l)
  obtain n doc where e: "e = (n, doc)" by (cases e)
  show ?case
  proof (cases doc)
    case Unparsable
    with Cons.IH[of st] show ?thesis unfolding e by simp
  next
    case (Records data)
    obtain r t' where l: "load_items clk data (ticks st) = (r, t')"
      by (cases "load_items clk data (ticks st)")
    with load_items_ticks[of "ticks st" clk data] have t: "ticks st \<le> t'" by simp
    show ?thesis
    proof (cases r)
      case None
      with Cons.IH[of "st\<lparr>ticks := t'\<rparr>"] t l Records show ?thesis unfolding e by simp
    next
      case (Some items)
      with Cons.IH[of "st\<lparr>projects := AList.update n items (projects st), ticks := t'\<rparr>"]
        t l Records
      show ?thesis unfolding e by simp
    qed
  qed
qed

lemma update_split:
  "distinct (map fst al) \<Longrightarrow>
   \<exists>l1 l2. AList.update k v al = l1 @ (k, v) # l2 \<and> k \<notin> fst ` set l1 \<and> k \<notin> fst ` set l2"
proof (induction al)
  case Nil
  have "AList.update k v [] = [] @ (k, v) # [] \<and> k \<notin> fst ` set [] \<and> k \<notin> fst ` set []"
    by simp
  then show ?case by blast
next
  case (Cons e al)
  show ?case
  proof (cases "fst e = k")
    case True
    with Cons.prems have "AList.update k v (e # al) = [] @ (k, v) # al
        \<and> k \<notin> fst ` set [] \<and> k \<notin> fst ` set al" by auto
    then show ?thesis by blast
  next
    case False
    from Cons.prems have "distinct (map fst al)" by simp
    from Cons.IH[OF this] obtain l1 l2 where
      "AList.update k v al = l1 @ (k, v) # l2" "k \<notin> fst ` set l1" "k \<notin> fst ` set l2" by blast
    with False have "AList.update k v (e # al) = (e # l1) @ (k, v) # l2
        \<and> k \<notin> fst ` set (e # l1) \<and> k \<notin> fst ` set l2" by auto
    then show ?thesis by blast
  qed
qed

text \<open>
  C1. What saving and reloading does, on the code: when every item of the project has
  a (truthy) \<open>created_at\<close>, a fresh manager over the directory written by
  \<open>save_project\<close> holds the same items in the same order with every field as saved,
  except \<open>updated_at\<close>, which \<open>__post_init__\<close> replaces by the clock readings taken
  while loading. The reloaded list therefore differs from the list that was saved as
  soon as the clock has moved on.
\<close>

theorem reload_restamps_updated_at:
  assumes "map_of (projects st) project_name = Some items"
    and "list_all (\<lambda>item. truthy (created_at item)) items"
    and "distinct (map fst (files st))"
  shows "\<exists>t'. t \<le> t'
    \<and> map_of (projects (BacklogManager_init clk (files (save_project st project_name)) t))
         project_name
       = Some (restamped clk t' items)"
proof -
  let ?doc = "Records (map asdict items)"
  from update_split[OF assms(3), of project_name ?doc] obtain l1 l2 where
    u: "AList.update project_name ?doc (files st) = l1 @ (project_name, ?doc) # l2"
    and n1: "project_name \<notin> fst ` set l1" and n2: "project_name \<notin> fst ` set l2" by blast
  have f: "files (save_project st project_name) = l1 @ (project_name, ?doc) # l2"
    using assms(1) u by (simp add: save_project_def)
  let ?s0 = "\<lparr>projects = [], files = l1 @ (project_name, ?doc) # l2, ticks = t\<rparr>"
  let ?s1 = "load_files clk l1 ?s0"
  let ?s2 = "?s1\<lparr>projects := AList.update project_name (restamped clk (ticks ?s1) items)
      (projects ?s1), ticks := ticks ?s1 + length items\<rparr>"
  have "BacklogManager_init clk (files (save_project st project_name)) t
      = load_files clk l2 ?s2"
    unfolding f BacklogManager_init_def load_projects_def
    by (simp add: load_files_append load_items_asdict[OF assms(2)])
  then have "map_of (projects (BacklogManager_init clk (files (save_project st project_name)) t))
      project_name = Some (restamped clk (ticks ?s1) items)"
    by (simp add: load_files_other[OF n2] update_conv')
  moreover have "t \<le> ticks ?s1" using load_files_ticks[of ?s0 clk l1] by simp
  ultimately show ?thesis by blast
qed

text \<open>
  The failing input: the session's item was stamped \<open>T1\<close>/\<open>T2\<close> when added; a manager
  constructed afterwards over the same directory holds it with \<open>updated_at = T3\<close>.
\<close>

theorem reload_restamps_updated_at_witness:
  "map_of (projects demo_s2) ''p'' = Some [login_item]
   \<and> list_all (\<lambda>item. truthy (created_at item)) [login_item]
   \<and> distinct (map fst (files demo_s2))
   \<and> map_of (projects (BacklogManager_init example_clock (files (save_project demo_s2 ''p'')) 2))
        ''p''
       = Some [login_item\<lparr>updated_at := PStr ''T3''\<rparr>]
   \<and> updated_at login_item = PStr ''T2''"
proof -
  have h1: "map_of (projects demo_s2) ''p'' = Some [login_item]"
    by (simp add: demo_s2_val login_item_def)
  have h2: "list_all (\<lambda>item. truthy (created_at item)) [login_item]"
    by (simp add: login_item_def)
  have h3: "distinct (map fst (files demo_s2))"
    by (simp add: demo_s2_val)
  from reload_restamps_updated_at[OF h1 h2 h3, of 2 example_clock] obtain t' where
    r: "map_of (projects (BacklogManager_init example_clock
          (files (save_project demo_s2 ''p'')) 2)) ''p''
        = Some (restamped example_clock t' [login_item])" by blast
  have e: "map_of (projects (BacklogManager_init example_clock
          (files (save_project demo_s2 ''p'')) 2)) ''p''
        = Some [login_item\<lparr>updated_at := PStr ''T3''\<rparr>]"
    by (simp add: demo_s2_val login_item_def save_project_def asdict_def
        BacklogManager_init_def load_projects_def BacklogItem_init_def field_names_def
        required_fields_def kw_def post_init_def example_clock_def str_nat.simps digit_char_def)
  have u: "updated_at login_item = PStr ''T2''" by (simp add: login_item_def)
  from h1 h2 h3 r e u show ?thesis by simp
qed


section \<open>Filter arguments: properties\<close>

lemma parse_filter_loop_pairs:
  "parse_filter_loop args i filters = filters ++ map_of (rev (filter_pairs (drop i args)))"
proof (induction args i filters rule: parse_filter_loop.induct)
  case (1 args i filters)
  show ?case
  proof (cases "i < length args")
    case False
    then show ?thesis by (subst parse_filter_loop.simps) simp
  next
    case True
    then have d: "drop i args = args ! i # drop (i + 1) args"
      by (simp add: Cons_nth_drop_Suc)
    show ?thesis
    proof (cases "startswith (args ! i) ''--''")
      case False
      have "filter_pairs (drop i args) = filter_pairs (drop (i + 1) args)"
        unfolding d using False by (cases "drop (i + 1) args") simp_all
      with "1.IH"(3)[OF True False] True False show ?thesis
        by (subst parse_filter_loop.simps) simp
    next
      case flag: True
      show ?thesis
      proof (cases "i + 1 < length args")
        case False
        with True have "drop (i + 1) args = []" by simp
        then have "filter_pairs (drop i args) = filter_pairs (drop (i + 1) args)"
          unfolding d by simp
        with "1.IH"(2)[OF True flag] False True flag show ?thesis
          by (subst parse_filter_loop.simps) simp
      next
        case more: True
        then have d': "drop (i + 1) args = args ! (i + 1) # drop (i + 2) args"
          using Cons_nth_drop_Suc[of "i + 1" args] by simp
        show ?thesis
        proof (cases "startswith (args ! (i + 1)) ''--''")
          case True
          then have "filter_pairs (drop i args) = filter_pairs (drop (i + 1) args)"
            unfolding d d' using flag by simp
          with "1.IH"(2)[OF \<open>i < length args\<close> flag] True \<open>i < length args\<close> flag
          show ?thesis by (subst parse_filter_loop.simps) simp
        next
          case False
          then have p: "filter_pairs (drop i args) =
              (drop 2 (args ! i), args ! (i + 1)) # filter_pairs (drop (i + 2) args)"
            unfolding d d' using flag by simp
          from "1.IH"(1)[OF \<open>i < length args\<close> flag] more False
          have "parse_filter_loop args (i + 2) (filters(drop 2 (args ! i) \<mapsto> args ! (i + 1)))
            = filters(drop 2 (args ! i) \<mapsto> args ! (i + 1))
                ++ map_of (rev (filter_pairs (drop (i + 2) args)))" by (simp add: fun_upd_def)
          with \<open>i < length args\<close> flag more False show ?thesis
            unfolding p by (subst parse_filter_loop.simps) (simp add: map_add_def fun_eq_iff split: option.splits)
        qed
      qed
    qed
  qed
qed

lemma pair_at_Suc: "pair_at (a # xs) (Suc i) = pair_at xs i"
  by (simp add: pair_at_def)

lemma pairs_by_position_Cons:
  "pairs_by_position (a # xs) =
     (if pair_at (a # xs) 0 then [(drop 2 a, (a # xs) ! 1)] else []) @ pairs_by_position xs"
proof -
  have "[0..<Suc (length xs)] = 0 # [Suc 0..<Suc (length xs)]"
    by (rule upt_conv_Cons) simp
  then have u: "[0..<length (a # xs)] = 0 # map Suc [0..<length xs]"
    by (simp only: length_Cons map_Suc_upt)
  have f: "filter (pair_at (a # xs)) (map Suc [0..<length xs])
      = map Suc (filter (pair_at xs) [0..<length xs])"
    by (simp add: filter_map comp_def pair_at_Suc)
  show ?thesis
    unfolding pairs_by_position_def u by (simp add: f comp_def del: upt_Suc)
qed

lemma filter_pairs_by_position: "filter_pairs args = pairs_by_position args"
proof (induction args rule: filter_pairs.induct)
  case 1
  show ?case by (simp add: pairs_by_position_def)
next
  case (2 a)
  show ?case by (simp add: pairs_by_position_def pair_at_def)
next
  case (3 a b rest)
  have r: "pairs_by_position (b # rest) = pairs_by_position rest" if "\<not> startswith b ''--''"
    using that by (subst pairs_by_position_Cons) (simp add: pair_at_def)
  show ?case
  proof (cases "startswith a ''--''")
    case False
    with 3 show ?thesis
      by (subst pairs_by_position_Cons) (simp add: pair_at_def)
  next
    case True
    show ?thesis
    proof (cases "startswith b ''--''")
      case b: True
      with True 3 show ?thesis
        by (subst pairs_by_position_Cons) (simp add: pair_at_def)
    next
      case b: False
      with True 3 r[OF b] show ?thesis
        by (subst pairs_by_position_Cons) (simp add: pair_at_def)
    qed
  qed
qed

text \<open>
  C9. \<open>parse_filter_args\<close> returns the dictionary of the key/value pairs formed as
  the specification says, a later pair for a key replacing an earlier one; the pairs
  are exactly those of the positions \<open>i\<close> where token \<open>i\<close> starts with \<open>--\<close>, a token
  \<open>i + 1\<close> exists and does not start with \<open>--\<close>: the key is token \<open>i\<close> without its
  first two characters and the value is token \<open>i + 1\<close>.
\<close>

theorem parse_filter_args_pairs:
  "parse_filter_args args = map_of (rev (filter_pairs args))
   \<and> filter_pairs args =
       map (\<lambda>i. (drop 2 (args ! i), args ! (i + 1)))
         (filter (\<lambda>i. i + 1 < length args \<and> startswith (args ! i) ''--''
                       \<and> \<not> startswith (args ! (i + 1)) ''--'') [0..<length args])"
proof -
  have "parse_filter_args args = map_of (rev (filter_pairs args))"
    by (simp add: parse_filter_args_def parse_filter_loop_pairs)
  moreover have "filter_pairs args =
       map (\<lambda>i. (drop 2 (args ! i), args ! (i + 1)))
         (filter (\<lambda>i. i + 1 < length args \<and> startswith (args ! i) ''--''
                       \<and> \<not> startswith (args ! (i + 1)) ''--'') [0..<length args])"
    using filter_pairs_by_position[of args]
    unfolding pairs_by_position_def pair_at_def .
  ultimately show ?thesis by (rule conjI)
qed

theorem parse_filter_args_pairs_witness:
  "parse_filter_args [''--priority'', ''high'', ''x'', ''--sprint'', ''--status'', ''todo'',
       ''--priority'', ''low'', ''--epic'']
     = [''priority'' \<mapsto> ''low'', ''status'' \<mapsto> ''todo'']"
proof -
  have "filter_pairs [''--priority'', ''high'', ''x'', ''--sprint'', ''--status'', ''todo'',
       ''--priority'', ''low'', ''--epic'']
     = [(''priority'', ''high''), (''status'', ''todo''), (''priority'', ''low'')]"
    by (simp add: startswith_def)
  with parse_filter_args_pairs[of "[''--priority'', ''high'', ''x'', ''--sprint'', ''--status'',
       ''todo'', ''--priority'', ''low'', ''--epic'']"]
  show ?thesis by (auto simp: fun_eq_iff)
qed


section \<open>Command lines: properties\<close>

subsection \<open>The lexer on quoted arguments\<close>

lemma separator_char_whitespace: "separator_char c = (c \<in> set whitespace)"
  by (auto simp: separator_char_def whitespace_def)

lemma separator_char_isspace: "separator_char c \<Longrightarrow> py_isspace c"
  by (auto simp: separator_char_def py_isspace_def)

lemma read_tokens_esc:
  "st \<noteq> InEscape \<Longrightarrow>
   read_tokens st esc tok quoted s = read_tokens st esc' tok quoted s"
proof (induction s arbitrary: st tok quoted)
  case Nil
  then show ?case by (cases st) simp_all
next
  case (Cons c cs)
  note ih = Cons.IH
  from Cons.prems show ?case
  proof (cases st)
    case InWhitespace
    then show ?thesis
      using ih[of InWhitespace] ih[of "InQuotes c"] ih[of InWord]
      by simp
  next
    case InWord
    then show ?thesis
      using ih[of InWhitespace] ih[of "InQuotes c"] ih[of InWord]
      by simp
  next
    case (InQuotes q)
    then show ?thesis
      using ih[of InWord] ih[of "InQuotes q"]
      by simp
  next
    case InEscape
    with Cons.prems show ?thesis by simp
  qed
qed

lemma read_tokens_between_words:
  "read_tokens InWhitespace esc [] False s = read_tokens InWord esc [] False s"
  by (cases s) (simp_all add: whitespace_def quotes_def escape_def)

lemma read_separators:
  "list_all separator_char sep \<Longrightarrow>
   read_tokens InWhitespace esc [] False (sep @ rest) = read_tokens InWhitespace esc [] False rest"
  by (induction sep) (simp_all add: separator_char_whitespace)

lemma read_single:
  "CHR 0x27 \<notin> set s \<Longrightarrow>
   read_tokens (InQuotes (CHR 0x27)) esc tok quoted (s @ CHR 0x27 # rest)
     = read_tokens InWord esc (tok @ s) True rest"
proof (induction s arbitrary: tok quoted)
  case Nil
  show ?case by simp
next
  case (Cons c s)
  then have c: "c \<noteq> CHR 0x27" and s: "CHR 0x27 \<notin> set s" by auto
  from c show ?case using Cons.IH[OF s, of "tok @ [c]" True] by (simp add: escapedquotes_def)
qed

lemma read_double:
  "list_all dq_ok ds \<Longrightarrow>
   read_tokens (InQuotes (CHR 0x22)) esc tok quoted (concat (map dq_render ds) @ CHR 0x22 # rest)
     = read_tokens InWord esc (tok @ concat (map dq_value ds)) True rest"
proof (induction ds arbitrary: tok quoted esc)
  case Nil
  show ?case by simp
next
  case (Cons d ds)
  then have d: "dq_ok d" and ds: "list_all dq_ok ds" by simp_all
  show ?case
  proof (cases d)
    case (DChar c)
    with d have "c \<noteq> CHR 0x22" "c \<noteq> CHR 0x5C" by simp_all
    then show ?thesis unfolding DChar
      using Cons.IH[OF ds, of esc "tok @ [c]" True] by (simp add: escape_def)
  next
    case (DEsc c)
    have "read_tokens (InQuotes (CHR 0x22)) esc tok quoted
        (concat (map dq_render (DEsc c # ds)) @ CHR 0x22 # rest)
      = read_tokens (InQuotes (CHR 0x22)) (InQuotes (CHR 0x22)) (tok @ dq_value (DEsc c)) True
          (concat (map dq_render ds) @ CHR 0x22 # rest)"
      by (simp add: escape_def escapedquotes_def)
    also have "\<dots> = read_tokens InWord (InQuotes (CHR 0x22))
        ((tok @ dq_value (DEsc c)) @ concat (map dq_value ds)) True rest"
      by (rule Cons.IH[OF ds])
    also have "\<dots> = read_tokens InWord esc
        ((tok @ dq_value (DEsc c)) @ concat (map dq_value ds)) True rest"
      by (rule read_tokens_esc) simp
    finally show ?thesis unfolding DEsc by simp
  qed
qed

lemma read_segment:
  assumes "seg_ok seg"
  shows "read_tokens InWord esc tok quoted (seg_render seg @ rest)
     = read_tokens InWord esc (tok @ seg_value seg) (quoted \<or> quoted_segment seg) rest"
proof (cases seg)
  case (Plain c)
  with assms show ?thesis
    by (simp add: separator_char_whitespace quotes_def escape_def)
next
  case (Escaped c)
  have "read_tokens InWord esc tok quoted (seg_render (Escaped c) @ rest)
      = read_tokens InWord InWord (tok @ [c]) quoted rest"
    by (simp add: whitespace_def quotes_def escape_def)
  also have "\<dots> = read_tokens InWord esc (tok @ [c]) quoted rest"
    by (rule read_tokens_esc) simp
  finally show ?thesis unfolding Escaped by simp
next
  case (SingleQ s)
  with assms have s: "CHR 0x27 \<notin> set s" by simp
  have "read_tokens InWord esc tok quoted (seg_render (SingleQ s) @ rest)
      = read_tokens (InQuotes (CHR 0x27)) esc tok quoted (s @ CHR 0x27 # rest)"
    by (simp add: whitespace_def quotes_def escape_def)
  also have "\<dots> = read_tokens InWord esc (tok @ s) True rest"
    by (rule read_single[OF s])
  finally show ?thesis unfolding SingleQ by simp
next
  case (DoubleQ ds)
  with assms have ds: "list_all dq_ok ds" by simp
  have "read_tokens InWord esc tok quoted (seg_render (DoubleQ ds) @ rest)
      = read_tokens (InQuotes (CHR 0x22)) esc tok quoted
          (concat (map dq_render ds) @ CHR 0x22 # rest)"
    by (simp add: whitespace_def quotes_def escape_def)
  also have "\<dots> = read_tokens InWord esc (tok @ concat (map dq_value ds)) True rest"
    by (rule read_double[OF ds])
  finally show ?thesis unfolding DoubleQ by simp
qed

lemma read_arg:
  "list_all seg_ok a \<Longrightarrow>
   read_tokens InWord esc tok quoted (arg_render a @ rest)
     = read_tokens InWord esc (tok @ arg_value a) (quoted \<or> list_ex quoted_segment a) rest"
proof (induction a arbitrary: tok quoted)
  case Nil
  show ?case by (simp add: arg_render_def arg_value_def)
next
  case (Cons seg a)
  then have seg: "seg_ok seg" and a: "list_all seg_ok a" by simp_all
  have "read_tokens InWord esc tok quoted (arg_render (seg # a) @ rest)
      = read_tokens InWord esc tok quoted (seg_render seg @ arg_render a @ rest)"
    by (simp add: arg_render_def)
  also have "\<dots> = read_tokens InWord esc (tok @ seg_value seg) (quoted \<or> quoted_segment seg)
      (arg_render a @ rest)"
    by (rule read_segment[OF seg])
  also have "\<dots> = read_tokens InWord esc ((tok @ seg_value seg) @ arg_value a)
      ((quoted \<or> quoted_segment seg) \<or> list_ex quoted_segment a) rest"
    by (rule Cons.IH[OF a])
  finally show ?case by (simp add: arg_value_def)
qed

lemma arg_emits: "arg_ok a \<Longrightarrow> arg_value a \<noteq> [] \<or> list_ex quoted_segment a"
proof -
  assume "arg_ok a"
  then obtain seg a' where a: "a = seg # a'" by (cases a) (auto simp: arg_ok_def)
  show ?thesis unfolding a by (cases seg) (simp_all add: arg_value_def)
qed

lemma read_more_args:
  "tok \<noteq> [] \<or> quoted \<Longrightarrow> args_ok xs \<Longrightarrow>
   read_tokens InWord esc tok quoted (more_args xs) = Some (tok # map (\<lambda>(sep, a). arg_value a) xs)"
proof (induction xs arbitrary: tok quoted esc)
  case Nil
  then show ?case by (auto simp: more_args_def)
next
  case (Cons x xs)
  obtain sep a where x: "x = (sep, a)" by (cases x)
  from Cons.prems(2) have sep: "separator sep" and a: "arg_ok a" and xs: "args_ok xs"
    unfolding x by (simp_all add: args_ok_def)
  from sep obtain c sep' where s: "sep = c # sep'" "separator_char c" "list_all separator_char sep'"
    by (cases sep) (auto simp: separator_def)
  from a have sa: "list_all seg_ok a" by (simp add: arg_ok_def)
  have "read_tokens InWord esc tok quoted (more_args (x # xs))
      = read_tokens InWord esc tok quoted (c # sep' @ arg_render a @ more_args xs)"
    by (simp add: more_args_def x s(1))
  also have "\<dots> = map_option ((#) tok)
      (read_tokens InWhitespace InWhitespace [] False (sep' @ arg_render a @ more_args xs))"
    using Cons.prems(1) s(2) by (auto simp: separator_char_whitespace)
  also have "read_tokens InWhitespace InWhitespace [] False (sep' @ arg_render a @ more_args xs)
      = read_tokens InWhitespace InWhitespace [] False (arg_render a @ more_args xs)"
    by (rule read_separators[OF s(3)])
  also have "\<dots> = read_tokens InWord InWhitespace [] False (arg_render a @ more_args xs)"
    by (rule read_tokens_between_words)
  also have "\<dots> = read_tokens InWord InWhitespace ([] @ arg_value a)
      (False \<or> list_ex quoted_segment a) (more_args xs)"
    by (rule read_arg[OF sa])
  also have "\<dots> = Some (([] @ arg_value a) # map (\<lambda>(sep, a). arg_value a) xs)"
    by (rule Cons.IH[OF _ xs]) (use arg_emits[OF a] in simp)
  finally show ?case by (simp add: x)
qed

lemma shlex_split_line:
  assumes "arg_ok a0" and "args_ok xs"
  shows "shlex_split (line_render a0 xs) = Some (arg_value a0 # map (\<lambda>(sep, a). arg_value a) xs)"
proof -
  from assms(1) have sa: "list_all seg_ok a0" by (simp add: arg_ok_def)
  have "shlex_split (line_render a0 xs)
      = read_tokens InWord InWhitespace [] False (arg_render a0 @ more_args xs)"
    unfolding shlex_split_def line_render_def by (rule read_tokens_between_words)
  also have "\<dots> = read_tokens InWord InWhitespace ([] @ arg_value a0)
      (False \<or> list_ex quoted_segment a0) (more_args xs)"
    by (rule read_arg[OF sa])
  also have "\<dots> = Some (([] @ arg_value a0) # map (\<lambda>(sep, a). arg_value a) xs)"
    by (rule read_more_args[OF _ assms(2)]) (use arg_emits[OF assms(1)] in simp)
  finally show ?thesis by simp
qed

lemma read_tokens_fails:
  "lexer_state_ok st esc \<Longrightarrow>
   (read_tokens st esc tok quoted s = None) = (quoting_after (quoting_of st esc) s \<noteq> Unquoted)"
proof (induction s arbitrary: st esc tok quoted)
  case Nil
  then show ?case by (cases st) (auto split: lex_state.splits)
next
  case (Cons c cs)
  note ih = Cons.IH
  consider (ws) "c \<in> set whitespace" | (bs) "c = CHR 0x5C" | (sq) "c = CHR 0x27"
    | (dq) "c = CHR 0x22"
    | (plain) "c \<notin> set whitespace" "c \<noteq> CHR 0x5C" "c \<noteq> CHR 0x27" "c \<noteq> CHR 0x22"
    by blast
  note kinds = this
  have ws_plain: "c \<noteq> CHR 0x27 \<and> c \<noteq> CHR 0x22 \<and> c \<noteq> CHR 0x5C" if "c \<in> set whitespace"
    using that by (auto simp: whitespace_def)
  show ?case
  proof (cases st)
    case InWhitespace
    from kinds show ?thesis
    proof cases
      case ws
      with ws_plain ih[of InWhitespace InWhitespace] ih[of InWhitespace esc]
      show ?thesis unfolding InWhitespace by simp
    next
      case bs
      with ih[of InEscape InWord]
      show ?thesis unfolding InWhitespace by (simp add: whitespace_def escape_def)
    next
      case sq
      with ih[of "InQuotes (CHR 0x27)" esc]
      show ?thesis unfolding InWhitespace by (simp add: whitespace_def escape_def quotes_def)
    next
      case dq
      with ih[of "InQuotes (CHR 0x22)" esc]
      show ?thesis unfolding InWhitespace by (simp add: whitespace_def escape_def quotes_def)
    next
      case plain
      with ih[of InWord esc]
      show ?thesis unfolding InWhitespace by (simp add: escape_def quotes_def)
    qed
  next
    case InWord
    from kinds show ?thesis
    proof cases
      case ws
      with ws_plain ih[of InWhitespace InWhitespace] ih[of InWhitespace esc]
      show ?thesis unfolding InWord by simp
    next
      case bs
      with ih[of InEscape InWord]
      show ?thesis unfolding InWord by (simp add: whitespace_def escape_def quotes_def)
    next
      case sq
      with ih[of "InQuotes (CHR 0x27)" esc]
      show ?thesis unfolding InWord by (simp add: whitespace_def escape_def quotes_def)
    next
      case dq
      with ih[of "InQuotes (CHR 0x22)" esc]
      show ?thesis unfolding InWord by (simp add: whitespace_def escape_def quotes_def)
    next
      case plain
      with ih[of InWord esc]
      show ?thesis unfolding InWord by (simp add: escape_def quotes_def)
    qed
  next
    case (InQuotes q)
    with Cons.prems have "q = CHR 0x27 \<or> q = CHR 0x22" by simp
    then show ?thesis
    proof
      assume q: "q = CHR 0x27"
      show ?thesis unfolding InQuotes q
        using ih[of InWord esc] ih[of "InQuotes (CHR 0x27)" esc]
        by (simp add: escapedquotes_def)
    next
      assume q: "q = CHR 0x22"
      show ?thesis unfolding InQuotes q
        using ih[of InWord esc] ih[of InEscape "InQuotes (CHR 0x22)"]
          ih[of "InQuotes (CHR 0x22)" esc]
        by (simp add: escape_def escapedquotes_def)
    qed
  next
    case InEscape
    with Cons.prems have "esc = InWord \<or> esc = InQuotes (CHR 0x22)" by simp
    then show ?thesis
    proof
      assume e: "esc = InWord"
      show ?thesis unfolding InEscape e
        using ih[of InWord InWord] by simp
    next
      assume e: "esc = InQuotes (CHR 0x22)"
      show ?thesis unfolding InEscape e
        using ih[of "InQuotes (CHR 0x22)" "InQuotes (CHR 0x22)"] by simp
    qed
  qed
qed

lemma shlex_split_fails: "(shlex_split s = None) = (\<not> balanced s)"
  unfolding shlex_split_def balanced_def
  using read_tokens_fails[of InWhitespace InWhitespace "[]" False s] by simp

subsection \<open>Stripping and whitespace splitting\<close>

lemma strip_core:
  assumes "blank lead" and "blank trail" and "core \<noteq> []"
    and "\<not> py_isspace (hd core)" and "\<not> py_isspace (last core)"
  shows "strip (lead @ core @ trail) = core"
proof -
  from assms(3,4) obtain c core' where c: "core = c # core'" "\<not> py_isspace c"
    by (cases core) auto
  from assms(3,5) have l: "dropWhile py_isspace (rev core) = rev core"
    by (cases core rule: rev_cases) simp_all
  have a: "dropWhile py_isspace (lead @ core @ trail) = core @ trail"
    using assms(1) c by (induction lead) (simp_all add: blank_def)
  have b: "dropWhile py_isspace (rev trail @ rev core) = rev core"
    using assms(2) l
  proof (induction trail rule: rev_induct)
    case Nil
    then show ?case by simp
  next
    case (snoc c trail)
    then show ?case by (simp add: blank_def)
  qed
  show ?thesis unfolding strip_def a by (simp add: b)
qed

lemma strip_blank: "blank s \<Longrightarrow> strip s = []"
proof -
  assume "blank s"
  then have d: "dropWhile py_isspace s = []"
    by (induction s) (simp_all add: blank_def)
  show ?thesis unfolding strip_def d by simp
qed

lemma split_words_word:
  "list_all (\<lambda>c. \<not> py_isspace c) w \<Longrightarrow>
   split_words acc (w @ rest) = split_words (acc @ w) rest"
  by (induction w arbitrary: acc) simp_all

lemma split_words_blank:
  "blank sep \<Longrightarrow> split_words [] (sep @ rest) = split_words [] rest"
  by (induction sep) (simp_all add: blank_def)

lemma split_more_words:
  "acc \<noteq> [] \<Longrightarrow> words_ok ys \<Longrightarrow> split_words acc (more_words ys) = acc # map snd ys"
proof (induction ys arbitrary: acc)
  case Nil
  then show ?case by (simp add: more_words_def)
next
  case (Cons y ys)
  obtain sep w where y: "y = (sep, w)" by (cases y)
  from Cons.prems(2) have sep: "sep \<noteq> []" "blank sep" and w: "word w" and ys: "words_ok ys"
    unfolding y by (simp_all add: words_ok_def)
  from sep obtain c sep' where s: "sep = c # sep'" "py_isspace c" "blank sep'"
    by (cases sep) (auto simp: blank_def)
  from w have w1: "w \<noteq> []" and w2: "list_all (\<lambda>c. \<not> py_isspace c) w"
    by (simp_all add: word_def)
  have "split_words acc (more_words (y # ys)) = split_words acc (c # sep' @ w @ more_words ys)"
    by (simp add: more_words_def y s(1))
  also have "\<dots> = acc # split_words [] (sep' @ w @ more_words ys)"
    using Cons.prems(1) s(2) by simp
  also have "split_words [] (sep' @ w @ more_words ys) = split_words [] (w @ more_words ys)"
    by (rule split_words_blank[OF s(3)])
  also have "\<dots> = split_words ([] @ w) (more_words ys)"
    by (rule split_words_word[OF w2])
  also have "\<dots> = ([] @ w) # map snd ys"
    by (rule Cons.IH[OF _ ys]) (use w1 in simp)
  finally show ?case by (simp add: y)
qed

lemma py_split_words:
  assumes "word w0" and "words_ok ys"
  shows "py_split (words_render w0 ys) = w0 # map snd ys"
proof -
  from assms(1) have w1: "w0 \<noteq> []" and w2: "list_all (\<lambda>c. \<not> py_isspace c) w0"
    by (simp_all add: word_def)
  have "py_split (words_render w0 ys) = split_words ([] @ w0) (more_words ys)"
    unfolding py_split_def words_render_def by (rule split_words_word[OF w2])
  also have "\<dots> = ([] @ w0) # map snd ys"
    by (rule split_more_words[OF _ assms(2)]) (use w1 in simp)
  finally show ?thesis by simp
qed

lemma words_render_ends:
  assumes "word w0" and "words_ok ys"
  shows "words_render w0 ys \<noteq> []" and "\<not> py_isspace (hd (words_render w0 ys))"
    and "\<not> py_isspace (last (words_render w0 ys))"
proof -
  from assms(1) obtain c w where w: "w0 = c # w" "\<not> py_isspace c"
    by (cases w0) (auto simp: word_def)
  then show "words_render w0 ys \<noteq> []" "\<not> py_isspace (hd (words_render w0 ys))"
    by (simp_all add: words_render_def)
  show "\<not> py_isspace (last (words_render w0 ys))"
  proof (cases ys rule: rev_cases)
    case Nil
    with assms(1) show ?thesis
      by (cases w0 rule: rev_cases) (simp_all add: words_render_def more_words_def word_def)
  next
    case (snoc ys' y)
    obtain sep v where y: "y = (sep, v)" by (cases y)
    from assms(2) have "word v" unfolding snoc y by (simp add: words_ok_def)
    then show ?thesis unfolding snoc y
      by (cases v rule: rev_cases) (simp_all add: words_render_def more_words_def word_def)
  qed
qed

subsection \<open>The command and its arguments\<close>

lemma line_render_nonempty: "arg_ok a0 \<Longrightarrow> line_render a0 xs \<noteq> []"
proof -
  assume "arg_ok a0"
  then obtain seg a' where a: "a0 = seg # a'" by (cases a0) (auto simp: arg_ok_def)
  show ?thesis unfolding a by (cases seg) (simp_all add: line_render_def arg_render_def)
qed

lemma parse_command_quoted_line:
  assumes "quoted_line lead a0 xs trail"
  shows "parse_command (lead @ line_render a0 xs @ trail)
    = (Some (lower (arg_value a0)), map (\<lambda>(sep, a). arg_value a) xs)"
proof -
  from assms have h: "blank lead" "blank trail" "arg_ok a0" "args_ok xs"
    "\<not> py_isspace (hd (line_render a0 xs))" "\<not> py_isspace (last (line_render a0 xs))"
    by (simp_all add: quoted_line_def)
  have s: "strip (lead @ line_render a0 xs @ trail) = line_render a0 xs"
    by (rule strip_core[OF h(1,2) line_render_nonempty[OF h(3)] h(5,6)])
  show ?thesis
    unfolding parse_command_def s shlex_split_line[OF h(3,4)] by simp
qed

lemma parse_command_words_line:
  assumes "words_line lead w0 ys trail" and "\<not> balanced (words_render w0 ys)"
  shows "parse_command (lead @ words_render w0 ys @ trail) = (Some (lower w0), map snd ys)"
proof -
  from assms(1) have h: "blank lead" "blank trail" "word w0" "words_ok ys"
    by (simp_all add: words_line_def)
  have s: "strip (lead @ words_render w0 ys @ trail) = words_render w0 ys"
    by (rule strip_core[OF h(1,2) words_render_ends[OF h(3,4)]])
  from assms(2) have f: "shlex_split (words_render w0 ys) = None"
    by (simp add: shlex_split_fails)
  show ?thesis
    unfolding parse_command_def s f py_split_words[OF h(3,4)] by simp
qed

lemma parse_command_blank: "blank line \<Longrightarrow> parse_command line = (None, [])"
  by (simp add: parse_command_def strip_blank shlex_split_def)

subsection \<open>Every line is blank, quoted or unbalanced\<close>

lemma single_closes:
  "quoting_after SingleQuoted s = Unquoted \<Longrightarrow>
   \<exists>body rest. s = body @ CHR 0x27 # rest \<and> CHR 0x27 \<notin> set body \<and> balanced rest"
proof (induction s)
  case Nil
  then show ?case by simp
next
  case (Cons c s)
  show ?case
  proof (cases "c = CHR 0x27")
    case True
    with Cons.prems have "balanced s" by (simp add: balanced_def)
    with True show ?thesis by (intro exI[of _ "[]"] exI[of _ s]) simp
  next
    case False
    with Cons.prems have "quoting_after SingleQuoted s = Unquoted" by simp
    from Cons.IH[OF this] obtain body rest where
      b: "s = body @ CHR 0x27 # rest" "CHR 0x27 \<notin> set body" "balanced rest" by blast
    have "c # s = (c # body) @ CHR 0x27 # rest \<and> CHR 0x27 \<notin> set (c # body) \<and> balanced rest"
      using False b by simp
    then show ?thesis by blast
  qed
qed

lemma double_closes:
  "(quoting_after DoubleQuoted s = Unquoted \<longrightarrow>
      (\<exists>ds rest. s = concat (map dq_render ds) @ CHR 0x22 # rest \<and> list_all dq_ok ds
         \<and> balanced rest))
   \<and> (quoting_after BackslashedInQuotes s = Unquoted \<longrightarrow>
      (\<exists>d ds rest. s = d # concat (map dq_render ds) @ CHR 0x22 # rest \<and> list_all dq_ok ds
         \<and> balanced rest))"
proof (induction s)
  case Nil
  show ?case by simp
next
  case (Cons c s)
  from Cons.IH have ih1: "\<exists>ds rest. s = concat (map dq_render ds) @ CHR 0x22 # rest
      \<and> list_all dq_ok ds \<and> balanced rest" if "quoting_after DoubleQuoted s = Unquoted"
    using that by blast
  from Cons.IH have ih2: "\<exists>d ds rest. s = d # concat (map dq_render ds) @ CHR 0x22 # rest
      \<and> list_all dq_ok ds \<and> balanced rest" if "quoting_after BackslashedInQuotes s = Unquoted"
    using that by blast
  have a: "\<exists>ds rest. c # s = concat (map dq_render ds) @ CHR 0x22 # rest \<and> list_all dq_ok ds
      \<and> balanced rest" if h: "quoting_after DoubleQuoted (c # s) = Unquoted"
  proof -
    consider (close) "c = CHR 0x22" | (bs) "c = CHR 0x5C"
      | (plain) "c \<noteq> CHR 0x22" "c \<noteq> CHR 0x5C" by blast
    then show ?thesis
    proof cases
      case close
      with h have "balanced s" by (simp add: balanced_def)
      then have "c # s = concat (map dq_render []) @ CHR 0x22 # s \<and> list_all dq_ok []
          \<and> balanced s" using close by simp
      then show ?thesis by blast
    next
      case bs
      with h have "quoting_after BackslashedInQuotes s = Unquoted" by simp
      from ih2[OF this] obtain d ds rest where
        b: "s = d # concat (map dq_render ds) @ CHR 0x22 # rest" "list_all dq_ok ds"
          "balanced rest" by blast
      have "c # s = concat (map dq_render (DEsc d # ds)) @ CHR 0x22 # rest
          \<and> list_all dq_ok (DEsc d # ds) \<and> balanced rest"
        using bs b by simp
      then show ?thesis by blast
    next
      case plain
      with h have "quoting_after DoubleQuoted s = Unquoted" by simp
      from ih1[OF this] obtain ds rest where
        b: "s = concat (map dq_render ds) @ CHR 0x22 # rest" "list_all dq_ok ds"
          "balanced rest" by blast
      have "c # s = concat (map dq_render (DChar c # ds)) @ CHR 0x22 # rest
          \<and> list_all dq_ok (DChar c # ds) \<and> balanced rest"
        using plain b by simp
      then show ?thesis by blast
    qed
  qed
  have b: "\<exists>d ds rest. c # s = d # concat (map dq_render ds) @ CHR 0x22 # rest
      \<and> list_all dq_ok ds \<and> balanced rest"
    if h: "quoting_after BackslashedInQuotes (c # s) = Unquoted"
  proof -
    from h have "quoting_after DoubleQuoted s = Unquoted" by simp
    from ih1[OF this] obtain ds rest where
      b: "s = concat (map dq_render ds) @ CHR 0x22 # rest" "list_all dq_ok ds"
        "balanced rest" by blast
    then have "c # s = c # concat (map dq_render ds) @ CHR 0x22 # rest \<and> list_all dq_ok ds
        \<and> balanced rest" by simp
    then show ?thesis by blast
  qed
  from a b show ?case by blast
qed

lemma more_args_Cons: "more_args ((sep, a) # xs) = sep @ arg_render a @ more_args xs"
  by (simp add: more_args_def)

lemma more_args_Nil: "more_args [] = []"
  by (simp add: more_args_def)

lemma arg_render_Cons: "arg_render (seg # a) = seg_render seg @ arg_render a"
  by (simp add: arg_render_def)

lemma arg_render_Nil: "arg_render [] = []"
  by (simp add: arg_render_def)

lemma args_ok_Cons: "args_ok ((sep, a) # xs) = (separator sep \<and> arg_ok a \<and> args_ok xs)"
  by (simp add: args_ok_def)

lemma args_ok_Nil: "args_ok []"
  by (simp add: args_ok_def)

lemma prepend_separator:
  assumes "separator_char c"
    and "s = arg_render a @ more_args zs @ trail"
    and "list_all seg_ok a" and "args_ok zs" and "list_all separator_char trail"
  shows "\<exists>a' zs' trail'. c # s = arg_render a' @ more_args zs' @ trail'
    \<and> list_all seg_ok a' \<and> args_ok zs' \<and> list_all separator_char trail'"
proof (cases "a = []")
  case False
  with assms(3) have "arg_ok a" by (simp add: arg_ok_def)
  with assms have "c # s = arg_render [] @ more_args (([c], a) # zs) @ trail
      \<and> list_all seg_ok [] \<and> args_ok (([c], a) # zs) \<and> list_all separator_char trail"
    by (simp add: more_args_Cons arg_render_Nil args_ok_Cons separator_def)
  then show ?thesis by blast
next
  case True
  show ?thesis
  proof (cases zs)
    case Nil
    with True assms have "c # s = arg_render [] @ more_args [] @ (c # trail)
        \<and> list_all seg_ok [] \<and> args_ok [] \<and> list_all separator_char (c # trail)"
      by (simp add: more_args_Nil arg_render_Nil args_ok_Nil)
    then show ?thesis by blast
  next
    case (Cons z zs')
    obtain sep b where z: "z = (sep, b)" by (cases z)
    from True assms Cons z
    have "c # s = arg_render [] @ more_args ((c # sep, b) # zs') @ trail
        \<and> list_all seg_ok [] \<and> args_ok ((c # sep, b) # zs') \<and> list_all separator_char trail"
      by (simp add: more_args_Cons arg_render_Nil args_ok_Cons separator_def)
    then show ?thesis by blast
  qed
qed

lemma prepend_segment:
  assumes "seg_ok seg"
    and "s = arg_render a @ more_args zs @ trail"
    and "list_all seg_ok a" and "args_ok zs" and "list_all separator_char trail"
  shows "\<exists>a' zs' trail'. seg_render seg @ s = arg_render a' @ more_args zs' @ trail'
    \<and> list_all seg_ok a' \<and> args_ok zs' \<and> list_all separator_char trail'"
proof -
  from assms have "seg_render seg @ s = arg_render (seg # a) @ more_args zs @ trail
      \<and> list_all seg_ok (seg # a) \<and> args_ok zs \<and> list_all separator_char trail"
    by (simp add: arg_render_Cons)
  then show ?thesis by blast
qed

lemma balanced_decomposition:
  "balanced s \<Longrightarrow>
   \<exists>a zs trail. s = arg_render a @ more_args zs @ trail
     \<and> list_all seg_ok a \<and> args_ok zs \<and> list_all separator_char trail"
proof (induction "length s" arbitrary: s rule: less_induct)
  case less
  show ?case
  proof (cases s)
    case Nil
    have "[] = arg_render [] @ more_args [] @ [] \<and> list_all seg_ok [] \<and> args_ok []
        \<and> list_all separator_char []"
      by (simp add: more_args_Nil arg_render_Nil args_ok_Nil)
    then show ?thesis unfolding Nil by blast
  next
    case (Cons c cs)
    note ih = less.hyps
    consider (sq) "c = CHR 0x27" | (dq) "c = CHR 0x22" | (bs) "c = CHR 0x5C"
      | (ws) "separator_char c"
      | (plain) "c \<noteq> CHR 0x27" "c \<noteq> CHR 0x22" "c \<noteq> CHR 0x5C" "\<not> separator_char c"
      by blast
    then show ?thesis
    proof cases
      case sq
      with less.prems Cons have "quoting_after SingleQuoted cs = Unquoted"
        by (simp add: balanced_def)
      from single_closes[OF this] obtain body rest where
        b: "cs = body @ CHR 0x27 # rest" "CHR 0x27 \<notin> set body" "balanced rest" by blast
      have "length rest < length s" unfolding Cons b(1) by simp
      from ih[OF this b(3)] obtain a zs trail where
        d: "rest = arg_render a @ more_args zs @ trail" "list_all seg_ok a" "args_ok zs"
          "list_all separator_char trail" by blast
      have "seg_ok (SingleQ body)" using b(2) by simp
      from prepend_segment[OF this d]
      show ?thesis unfolding Cons sq b(1) by simp
    next
      case dq
      with less.prems Cons have "quoting_after DoubleQuoted cs = Unquoted"
        by (simp add: balanced_def)
      with double_closes[of cs] obtain ds rest where
        b: "cs = concat (map dq_render ds) @ CHR 0x22 # rest" "list_all dq_ok ds"
          "balanced rest" by blast
      have "length rest < length s" unfolding Cons b(1) by simp
      from ih[OF this b(3)] obtain a zs trail where
        d: "rest = arg_render a @ more_args zs @ trail" "list_all seg_ok a" "args_ok zs"
          "list_all separator_char trail" by blast
      have "seg_ok (DoubleQ ds)" using b(2) by simp
      from prepend_segment[OF this d]
      show ?thesis unfolding Cons dq b(1) by simp
    next
      case bs
      with less.prems Cons have q: "quoting_after Backslashed cs = Unquoted"
        by (simp add: balanced_def)
      then obtain d rest where b: "cs = d # rest" by (cases cs) simp_all
      with q have r: "balanced rest" by (simp add: balanced_def)
      have "length rest < length s" unfolding Cons b by simp
      from ih[OF this r] obtain a zs trail where
        d: "rest = arg_render a @ more_args zs @ trail" "list_all seg_ok a" "args_ok zs"
          "list_all separator_char trail" by blast
      have "seg_ok (Escaped d)" by simp
      from prepend_segment[OF this d]
      show ?thesis unfolding Cons bs b by simp
    next
      case ws
      then have n: "c \<noteq> CHR 0x27" "c \<noteq> CHR 0x22" "c \<noteq> CHR 0x5C"
        by (auto simp: separator_char_def)
      with less.prems Cons have r: "balanced cs" by (simp add: balanced_def)
      have "length cs < length s" unfolding Cons by simp
      from ih[OF this r] obtain a zs trail where
        d: "cs = arg_render a @ more_args zs @ trail" "list_all seg_ok a" "args_ok zs"
          "list_all separator_char trail" by blast
      from prepend_separator[OF ws d] show ?thesis unfolding Cons .
    next
      case plain
      with less.prems Cons have r: "balanced cs" by (simp add: balanced_def)
      have "length cs < length s" unfolding Cons by simp
      from ih[OF this r] obtain a zs trail where
        d: "cs = arg_render a @ more_args zs @ trail" "list_all seg_ok a" "args_ok zs"
          "list_all separator_char trail" by blast
      have "seg_ok (Plain c)" using plain by simp
      from prepend_segment[OF this d]
      show ?thesis unfolding Cons by simp
    qed
  qed
qed

lemma balanced_line:
  assumes "balanced s" and "s \<noteq> []" and "\<not> py_isspace (hd s)" and "\<not> py_isspace (last s)"
  shows "\<exists>a0 xs. s = line_render a0 xs \<and> arg_ok a0 \<and> args_ok xs"
proof -
  from balanced_decomposition[OF assms(1)] obtain a zs trail where
    d: "s = arg_render a @ more_args zs @ trail" "list_all seg_ok a" "args_ok zs"
      "list_all separator_char trail" by blast
  have a: "a \<noteq> []"
  proof
    assume e: "a = []"
    have "py_isspace (hd s)"
    proof (cases zs)
      case Nil
      with e d(1) assms(2) have "s = trail" "trail \<noteq> []"
        by (simp_all add: arg_render_Nil more_args_Nil)
      with d(4) show ?thesis
        by (cases trail) (simp_all add: separator_char_isspace)
    next
      case (Cons z zs')
      obtain sep b where z: "z = (sep, b)" by (cases z)
      from d(3) have "separator sep" unfolding Cons z by (simp add: args_ok_Cons)
      then obtain c sep' where s: "sep = c # sep'" "separator_char c"
        by (cases sep) (auto simp: separator_def)
      from e d(1) have "hd s = c"
        unfolding Cons z s(1) by (simp add: arg_render_Nil more_args_Cons)
      with s(2) show ?thesis by (simp add: separator_char_isspace)
    qed
    with assms(3) show False by simp
  qed
  have t: "trail = []"
  proof (rule ccontr)
    assume "trail \<noteq> []"
    then have "last s = last trail" unfolding d(1) by simp
    moreover from \<open>trail \<noteq> []\<close> d(4) have "separator_char (last trail)"
      by (simp add: list_all_iff)
    ultimately have "py_isspace (last s)" by (simp add: separator_char_isspace)
    with assms(4) show False by simp
  qed
  from d a t have "s = line_render a zs \<and> arg_ok a \<and> args_ok zs"
    by (simp add: line_render_def arg_ok_def)
  then show ?thesis by blast
qed

lemma more_words_Cons: "more_words ((sep, w) # ys) = sep @ w @ more_words ys"
  by (simp add: more_words_def)

lemma more_words_Nil: "more_words [] = []"
  by (simp add: more_words_def)

lemma words_ok_Cons:
  "words_ok ((sep, w) # ys) = (sep \<noteq> [] \<and> blank sep \<and> word w \<and> words_ok ys)"
  by (simp add: words_ok_def)

lemma words_ok_Nil: "words_ok []"
  by (simp add: words_ok_def)

lemma words_decomposition:
  "\<exists>w ys trail. s = w @ more_words ys @ trail
     \<and> list_all (\<lambda>c. \<not> py_isspace c) w \<and> words_ok ys \<and> blank trail"
proof (induction s)
  case Nil
  have "[] = [] @ more_words [] @ [] \<and> list_all (\<lambda>c. \<not> py_isspace c) [] \<and> words_ok []
      \<and> blank []"
    by (simp add: more_words_Nil words_ok_Nil blank_def)
  then show ?case by blast
next
  case (Cons c s)
  then obtain w ys trail where
    d: "s = w @ more_words ys @ trail" "list_all (\<lambda>c. \<not> py_isspace c) w" "words_ok ys"
      "blank trail" by blast
  show ?case
  proof (cases "py_isspace c")
    case False
    with d have "c # s = (c # w) @ more_words ys @ trail
        \<and> list_all (\<lambda>c. \<not> py_isspace c) (c # w) \<and> words_ok ys \<and> blank trail" by simp
    then show ?thesis by blast
  next
    case True
    show ?thesis
    proof (cases "w = []")
      case False
      with d True have "c # s = [] @ more_words (([c], w) # ys) @ trail
          \<and> list_all (\<lambda>c. \<not> py_isspace c) [] \<and> words_ok (([c], w) # ys) \<and> blank trail"
        by (simp add: more_words_Cons words_ok_Cons blank_def word_def)
      then show ?thesis by blast
    next
      case w: True
      show ?thesis
      proof (cases ys)
        case Nil
        with d True w have "c # s = [] @ more_words [] @ (c # trail)
            \<and> list_all (\<lambda>c. \<not> py_isspace c) [] \<and> words_ok [] \<and> blank (c # trail)"
          by (simp add: more_words_Nil words_ok_Nil blank_def)
        then show ?thesis by blast
      next
        case (Cons y ys')
        obtain sep v where y: "y = (sep, v)" by (cases y)
        from d True w Cons y
        have "c # s = [] @ more_words ((c # sep, v) # ys') @ trail
            \<and> list_all (\<lambda>c. \<not> py_isspace c) [] \<and> words_ok ((c # sep, v) # ys') \<and> blank trail"
          by (simp add: more_words_Cons words_ok_Cons blank_def)
        then show ?thesis by blast
      qed
    qed
  qed
qed

lemma words_of_line:
  assumes "s \<noteq> []" and "\<not> py_isspace (hd s)" and "\<not> py_isspace (last s)"
  shows "\<exists>w0 ys. s = words_render w0 ys \<and> word w0 \<and> words_ok ys"
proof -
  from words_decomposition[of s] obtain w ys trail where
    d: "s = w @ more_words ys @ trail" "list_all (\<lambda>c. \<not> py_isspace c) w" "words_ok ys"
      "blank trail" by blast
  have a: "w \<noteq> []"
  proof
    assume e: "w = []"
    have "py_isspace (hd s)"
    proof (cases ys)
      case Nil
      with e d(1) assms(1) have "s = trail" "trail \<noteq> []" by (simp_all add: more_words_Nil)
      with d(4) show ?thesis by (cases trail) (simp_all add: blank_def)
    next
      case (Cons y ys')
      obtain sep v where y: "y = (sep, v)" by (cases y)
      from d(3) have "sep \<noteq> []" "blank sep" unfolding Cons y by (simp_all add: words_ok_Cons)
      then obtain c sep' where s: "sep = c # sep'" "py_isspace c"
        by (cases sep) (auto simp: blank_def)
      from e d(1) have "hd s = c" unfolding Cons y s(1) by (simp add: more_words_Cons)
      with s(2) show ?thesis by simp
    qed
    with assms(2) show False by simp
  qed
  have t: "trail = []"
  proof (rule ccontr)
    assume "trail \<noteq> []"
    then have "last s = last trail" unfolding d(1) by simp
    moreover from \<open>trail \<noteq> []\<close> d(4) have "py_isspace (last trail)"
      by (simp add: blank_def list_all_iff)
    ultimately show False using assms(3) by simp
  qed
  from d a t have "s = words_render w ys \<and> word w \<and> words_ok ys"
    by (simp add: words_render_def word_def)
  then show ?thesis by blast
qed

lemma line_decomposition:
  assumes "\<not> blank line"
  shows "\<exists>lead core trail. line = lead @ core @ trail \<and> blank lead \<and> blank trail
    \<and> core \<noteq> [] \<and> \<not> py_isspace (hd core) \<and> \<not> py_isspace (last core)"
proof -
  define lead where "lead = takeWhile py_isspace line"
  define rest where "rest = dropWhile py_isspace line"
  define core where "core = rev (dropWhile py_isspace (rev rest))"
  define trail where "trail = rev (takeWhile py_isspace (rev rest))"
  have l: "line = lead @ rest" by (simp add: lead_def rest_def)
  have bl: "blank lead"
    unfolding blank_def lead_def list_all_iff by (auto dest: set_takeWhileD)
  from assms have rn: "rest \<noteq> []"
    unfolding rest_def blank_def list_all_iff by (simp add: dropWhile_eq_Nil_conv)
  then have rh: "\<not> py_isspace (hd rest)" unfolding rest_def by (rule hd_dropWhile)
  have r: "rest = core @ trail"
    unfolding core_def trail_def rev_append[symmetric] by simp
  have bt: "blank trail"
    unfolding blank_def trail_def list_all_iff by (auto dest: set_takeWhileD)
  have cn: "core \<noteq> []"
  proof
    assume "core = []"
    with r have e: "rest = trail" by simp
    with rn have "trail \<noteq> []" by simp
    with bt have "py_isspace (hd trail)" by (cases trail) (simp_all add: blank_def)
    with rh e show False by simp
  qed
  then have dn: "dropWhile py_isspace (rev rest) \<noteq> []" by (simp add: core_def)
  have "last core = hd (dropWhile py_isspace (rev rest))"
    unfolding core_def using dn by (simp add: last_rev)
  with hd_dropWhile[OF dn] have cl: "\<not> py_isspace (last core)" by simp
  from cn r have "hd core = hd rest" by simp
  with rh have ch: "\<not> py_isspace (hd core)" by simp
  from l r bl bt cn ch cl
  have "line = lead @ core @ trail \<and> blank lead \<and> blank trail
    \<and> core \<noteq> [] \<and> \<not> py_isspace (hd core) \<and> \<not> py_isspace (last core)" by simp
  then show ?thesis by blast
qed

lemma lower_upper_char: "lower_char (upper_char c) = lower_char c"
  by (simp add: lower_char_def upper_char_def)

lemma lower_upper: "lower (upper w) = lower w"
  by (simp add: lower_def upper_def lower_upper_char)

lemma same_upper_same_lower: "upper u = upper v \<Longrightarrow> lower u = lower v"
  using lower_upper[of u] lower_upper[of v] by simp

text \<open>
  C8. \<open>parse_command\<close> respects shell quoting: on a line made of arguments written
  with plain characters, backslash escapes, single quotes and double quotes, separated
  by runs of spaces, tabs, line feeds or carriage returns, between leading and trailing
  whitespace, the command is the first argument's token in lower case and the
  arguments are the tokens of the others, each quoted argument (spaces included) being
  one token. On a line whose quoting is not balanced it does not fail: the command is
  the first whitespace-separated word in lower case and the arguments are the other
  words. On a blank line there is no command. Every line is of one of these three
  kinds. Two first tokens that differ only in the case of their letters give the same
  command.
\<close>

theorem parse_command_tokens:
  "(quoted_line lead a0 xs trail \<longrightarrow>
      parse_command (lead @ line_render a0 xs @ trail)
        = (Some (lower (arg_value a0)), map (\<lambda>(sep, a). arg_value a) xs))
   \<and> (words_line lead w0 ys trail \<and> \<not> balanced (words_render w0 ys) \<longrightarrow>
        parse_command (lead @ words_render w0 ys @ trail) = (Some (lower w0), map snd ys))
   \<and> (blank line \<longrightarrow> parse_command line = (None, []))
   \<and> (blank line
        \<or> (\<exists>lead a0 xs trail. line = lead @ line_render a0 xs @ trail
              \<and> quoted_line lead a0 xs trail)
        \<or> (\<exists>lead w0 ys trail. line = lead @ words_render w0 ys @ trail
              \<and> words_line lead w0 ys trail \<and> \<not> balanced (words_render w0 ys)))
   \<and> (upper u = upper v \<longrightarrow> lower u = lower v)"
proof (intro conjI impI)
  assume "quoted_line lead a0 xs trail"
  then show "parse_command (lead @ line_render a0 xs @ trail)
        = (Some (lower (arg_value a0)), map (\<lambda>(sep, a). arg_value a) xs)"
    by (rule parse_command_quoted_line)
next
  assume "words_line lead w0 ys trail \<and> \<not> balanced (words_render w0 ys)"
  then show "parse_command (lead @ words_render w0 ys @ trail) = (Some (lower w0), map snd ys)"
    using parse_command_words_line by blast
next
  assume "blank line"
  then show "parse_command line = (None, [])" by (rule parse_command_blank)
next
  show "blank line
        \<or> (\<exists>lead a0 xs trail. line = lead @ line_render a0 xs @ trail
              \<and> quoted_line lead a0 xs trail)
        \<or> (\<exists>lead w0 ys trail. line = lead @ words_render w0 ys @ trail
              \<and> words_line lead w0 ys trail \<and> \<not> balanced (words_render w0 ys))"
  proof (cases "blank line")
    case True
    then show ?thesis by simp
  next
    case False
    from line_decomposition[OF this] obtain lead core trail where
      d: "line = lead @ core @ trail" "blank lead" "blank trail" "core \<noteq> []"
        "\<not> py_isspace (hd core)" "\<not> py_isspace (last core)" by blast
    show ?thesis
    proof (cases "balanced core")
      case True
      from balanced_line[OF True d(4,5,6)] obtain a0 xs where
        c: "core = line_render a0 xs" "arg_ok a0" "args_ok xs" by blast
      with d have "line = lead @ line_render a0 xs @ trail \<and> quoted_line lead a0 xs trail"
        by (simp add: quoted_line_def)
      then show ?thesis by blast
    next
      case nb: False
      from words_of_line[OF d(4,5,6)] obtain w0 ys where
        c: "core = words_render w0 ys" "word w0" "words_ok ys" by blast
      with d nb have "line = lead @ words_render w0 ys @ trail
          \<and> words_line lead w0 ys trail \<and> \<not> balanced (words_render w0 ys)"
        by (simp add: words_line_def)
      then show ?thesis by blast
    qed
  qed
next
  assume "upper u = upper v"
  then show "lower u = lower v" by (rule same_upper_same_lower)
qed


lemma example_line_val:
  "''  '' @ line_render example_command example_args @ '' '' = example_line"
  by (simp add: example_line_def example_command_def example_args_def line_render_def
      more_args_def arg_render_def)

lemma example_line_quoted: "quoted_line ''  '' example_command example_args '' ''"
  by (simp add: quoted_line_def blank_def py_isspace_def arg_ok_def args_ok_def separator_def
      separator_char_def example_command_def example_args_def line_render_def more_args_def
      arg_render_def)

lemma example_line_values:
  "lower (arg_value example_command) = ''add''"
  "map (\<lambda>(sep, a). arg_value a) example_args = [''Login page'', ''say \"hi\"'', ''a b'']"
  by (simp_all add: example_command_def example_args_def arg_value_def lower_def lower_char_def)

lemma example_open_lines:
  "words_line [] ''add'' [('' '', ''\"Login''), ('' '', ''page'')] []"
  "\<not> balanced (words_render ''add'' [('' '', ''\"Login''), ('' '', ''page'')])"
  "words_line [] ''add'' [('' '', [CHR 0x27, CHR ''a'']), ('' '', ''b'')] []"
  "\<not> balanced (words_render ''add'' [('' '', [CHR 0x27, CHR ''a'']), ('' '', ''b'')])"
  "words_line [] ''add'' [('' '', [CHR ''a'', CHR 0x5C])] '' ''"
  "\<not> balanced (words_render ''add'' [('' '', [CHR ''a'', CHR 0x5C])])"
  by (simp_all add: words_line_def words_ok_def word_def blank_def py_isspace_def balanced_def
      words_render_def more_words_def)

text \<open>
  The line \<^verbatim>\<open>  ADD 'Login page'<TAB>"say \"hi\""  a\ b \<close> gives the command \<open>add\<close> and
  three arguments. A line that ends inside double quotes, inside single quotes or (once
  stripped) after a backslash is split at its whitespace, and the quote or backslash
  stays in the word.
\<close>

theorem parse_command_tokens_witness:
  "parse_command example_line = (Some ''add'', [''Login page'', ''say \"hi\"'', ''a b''])
   \<and> example_line =
       ''  ADD '' @ [CHR 0x27] @ ''Login page'' @ [CHR 0x27, CHR 0x09]
         @ ''\"say '' @ [CHR 0x5C] @ ''\"hi'' @ [CHR 0x5C] @ ''\"\"  a'' @ [CHR 0x5C] @ '' b ''
   \<and> parse_command ''add \"Login page'' = (Some ''add'', [''\"Login'', ''page''])
   \<and> parse_command (''add '' @ [CHR 0x27] @ ''a b'') = (Some ''add'', [[CHR 0x27, CHR ''a''], ''b''])
   \<and> parse_command (''add a'' @ [CHR 0x5C] @ '' '') = (Some ''add'', [[CHR ''a'', CHR 0x5C]])
   \<and> parse_command ''   '' = (None, [])
   \<and> lower ''Add'' = lower ''ADD''"
proof -
  note q = parse_command_tokens[where lead = "''  ''" and ?a0.0 = example_command
      and xs = example_args and trail = "'' ''" and line = "''   ''" and u = "''Add''"
      and v = "''ADD''"]
  from q example_line_quoted
  have "parse_command (''  '' @ line_render example_command example_args @ '' '')
      = (Some (lower (arg_value example_command)), map (\<lambda>(sep, a). arg_value a) example_args)"
    by blast
  then have a: "parse_command example_line
      = (Some ''add'', [''Login page'', ''say \"hi\"'', ''a b''])"
    unfolding example_line_val example_line_values .
  have b: "example_line =
       ''  ADD '' @ [CHR 0x27] @ ''Login page'' @ [CHR 0x27, CHR 0x09]
         @ ''\"say '' @ [CHR 0x5C] @ ''\"hi'' @ [CHR 0x5C] @ ''\"\"  a'' @ [CHR 0x5C] @ '' b ''"
    by (simp add: example_line_def)
  have "blank ''   ''" by (simp add: blank_def py_isspace_def)
  with q have c: "parse_command ''   '' = (None, [])" by blast
  have "upper ''Add'' = upper ''ADD''" by (simp add: upper_def upper_char_def)
  with q have d: "lower ''Add'' = lower ''ADD''" by blast
  have l: "lower ''add'' = ''add''" by (simp add: lower_def lower_char_def)
  from parse_command_tokens[where lead = "[]" and ?w0.0 = "''add''"
      and ys = "[('' '', ''\"Login''), ('' '', ''page'')]" and trail = "[]"]
    example_open_lines(1,2)
  have "parse_command ([] @ words_render ''add'' [('' '', ''\"Login''), ('' '', ''page'')] @ [])
      = (Some (lower ''add''), map snd [('' '', ''\"Login''), ('' '', ''page'')])"
    by blast
  then have e: "parse_command ''add \"Login page'' = (Some ''add'', [''\"Login'', ''page''])"
    by (simp add: words_render_def more_words_def l)
  from parse_command_tokens[where lead = "[]" and ?w0.0 = "''add''"
      and ys = "[('' '', [CHR 0x27, CHR ''a'']), ('' '', ''b'')]" and trail = "[]"]
    example_open_lines(3,4)
  have "parse_command ([] @ words_render ''add'' [('' '', [CHR 0x27, CHR ''a'']), ('' '', ''b'')]
        @ [])
      = (Some (lower ''add''), map snd [('' '', [CHR 0x27, CHR ''a'']), ('' '', ''b'')])"
    by blast
  then have f: "parse_command (''add '' @ [CHR 0x27] @ ''a b'')
      = (Some ''add'', [[CHR 0x27, CHR ''a''], ''b''])"
    by (simp add: words_render_def more_words_def l)
  from parse_command_tokens[where lead = "[]" and ?w0.0 = "''add''"
      and ys = "[('' '', [CHR ''a'', CHR 0x5C])]" and trail = "'' ''"]
    example_open_lines(5,6)
  have "parse_command ([] @ words_render ''add'' [('' '', [CHR ''a'', CHR 0x5C])] @ '' '')
      = (Some (lower ''add''), map snd [('' '', [CHR ''a'', CHR 0x5C])])"
    by blast
  then have g: "parse_command (''add a'' @ [CHR 0x5C] @ '' '')
      = (Some ''add'', [[CHR ''a'', CHR 0x5C]])"
    by (simp add: words_render_def more_words_def l)
  from a b e f g c d show ?thesis by (intro conjI)
qed

end
